theory Spec2Isabelle
  imports Complex_Main "HOL-Library.Sublist"
begin

section \<open>Configuration (config.js)\<close>

text \<open>
  The numeric constants of the frozen \<open>CONFIG\<close> object. All of them are integers far below
  \<open>2^53\<close>, so JavaScript's doubles compute on them exactly and \<open>int\<close> is a faithful model.
\<close>

definition CONDITION_DURATION_MS :: int where "CONDITION_DURATION_MS = 5 * 60 * 1000"
definition DAYS_PER_CONDITION :: int where "DAYS_PER_CONDITION = 5"
definition STARTING_ENERGY :: int where "STARTING_ENERGY = 50"
definition MAX_ENERGY :: int where "MAX_ENERGY = 100"
definition SMALLER_SOONER_REWARD :: int where "SMALLER_SOONER_REWARD = 1"
definition INITIAL_DELAY_MS :: int where "INITIAL_DELAY_MS = 6000"
definition DELAY_STEP_MS :: int where "DELAY_STEP_MS = 2000"
definition MIN_DELAY_MS :: int where "MIN_DELAY_MS = 2000"
definition EXPOSURE_REWARD :: int where "EXPOSURE_REWARD = 10"
definition EXPOSURE_MIN_FISH :: int where "EXPOSURE_MIN_FISH = 3"
definition EXPOSURE_MIN_LL :: int where "EXPOSURE_MIN_LL = 3"
definition EXPOSURE_DRAIN_INTERVAL_MS :: real where "EXPOSURE_DRAIN_INTERVAL_MS = 3000"

datatype condition_id = GreatestPositive | ModeratePositive | SmallNegative | GreatestNegative

fun drainIntervalMs :: "condition_id \<Rightarrow> real" where
  "drainIntervalMs GreatestPositive = 3000"
| "drainIntervalMs ModeratePositive = 2000"
| "drainIntervalMs SmallNegative = 950"
| "drainIntervalMs GreatestNegative = 500"

datatype group_id = GroupA | GroupB | GroupC | GroupD

fun group_rewardAmount :: "group_id \<Rightarrow> int" where
  "group_rewardAmount GroupA = 5"
| "group_rewardAmount GroupB = 5"
| "group_rewardAmount GroupC = 10"
| "group_rewardAmount GroupD = 10"

fun conditionOrder :: "group_id \<Rightarrow> condition_id list" where
  "conditionOrder GroupA = [GreatestPositive, ModeratePositive, SmallNegative, GreatestNegative]"
| "conditionOrder GroupB = [GreatestNegative, SmallNegative, ModeratePositive, GreatestPositive]"
| "conditionOrder GroupC = [GreatestPositive, ModeratePositive, SmallNegative, GreatestNegative]"
| "conditionOrder GroupD = [GreatestNegative, SmallNegative, ModeratePositive, GreatestPositive]"


section \<open>The shared state store (state.js)\<close>

datatype phase = Intro | Exposure | Transition | Condition | End

text \<open>
  The fields of \<open>initialState()\<close> that the engine, the timers and the screen flow read or
  write. \<open>participantId\<close>, \<open>sequence\<close>, \<open>conditionStartTime\<close>, \<open>exposureReady\<close>,
  \<open>pausedAt\<close> and \<open>totalPausedMs\<close> are written but never read by that code and are left
  out. \<open>setState(partial)\<close> is a record update of the fields named in \<open>partial\<close>; nothing
  in the repository subscribes to the store, so the notification loop has no effect.
\<close>

record state =
  group :: "group_id option"
  rewardAmount :: int
  phase :: phase
  conditionIndex :: int
  conditionId :: "condition_id option"
  currentEnergy :: int
  totalEnergyGained :: int
  conditionElapsedMs :: int
  daysLeft :: int
  currentDelayMs :: int
  trialNumber :: int
  isAnimating :: bool
  isWaitingDelay :: bool
  isDead :: bool
  choicesDisabled :: bool
  exposureFishCount :: int
  exposureLLCount :: int
  tabHidden :: bool

definition initialState :: state where
  "initialState = \<lparr> group = None, rewardAmount = 0, phase = Intro, conditionIndex = -1,
     conditionId = None, currentEnergy = 50, totalEnergyGained = 0, conditionElapsedMs = 0,
     daysLeft = 5, currentDelayMs = 6000, trialNumber = 0, isAnimating = False,
     isWaitingDelay = False, isDead = False, choicesDisabled = False,
     exposureFishCount = 0, exposureLLCount = 0, tabHidden = False \<rparr>"


section \<open>Delay adjustment (engine.js, adjustDelay)\<close>

datatype direction = Increase | Decrease

definition adjustDelay :: "direction \<Rightarrow> state \<Rightarrow> state" where
  "adjustDelay dir s =
     (let current = currentDelayMs s;
          newDelay = (if dir = Increase then current + DELAY_STEP_MS
                      else max MIN_DELAY_MS (current - DELAY_STEP_MS))
      in s\<lparr>currentDelayMs := newDelay\<rparr>)"


section \<open>Drift-corrected timers and cancelable delays (timer.js)\<close>

text \<open>
  Times are milliseconds as read from \<open>performance.now()\<close>; they are modelled as exact
  reals. Every function that reads the clock takes the reading as the argument \<open>now\<close>.

  A closure returned by \<open>createTimer\<close> or \<open>createDelay\<close> is a record of its local
  variables. The variable \<open>timeoutHandle\<close> is modelled by the host timeout it designates:
  \<open>Some d\<close> when a timeout armed by \<open>setTimeout(f, d)\<close> is pending, \<open>None\<close> when the
  variable is \<open>null\<close> or holds the handle of a timeout that was cleared or has already
  run (\<open>clearTimeout\<close> ignores both).
\<close>

datatype on_complete = ExposureExpired | ConditionExpired

text \<open>
  The three callbacks the engine passes to \<open>createTimer\<close>, each with the mutable local
  variable its closure captures: \<open>lastDay\<close> (and the \<open>onComplete\<close> argument) for the
  segment countdown, \<open>delayRemaining\<close> for the visual countdown of a delayed choice.
\<close>

datatype callback = DrainCb | ConditionCb int on_complete | DelayVisualCb int

record timer =
  callback :: callback
  intervalMs :: real
  expected :: real
  timeoutHandle :: "real option"
  paused :: bool
  remainingMs :: real

definition new_timer :: "callback \<Rightarrow> real \<Rightarrow> real \<Rightarrow> timer" where
  "new_timer cb interval now =
     \<lparr> callback = cb, intervalMs = interval, expected = now + interval,
       timeoutHandle = Some interval, paused = False, remainingMs = 0 \<rparr>"

text \<open>The host runs the pending timeout: the handle no longer designates one.\<close>

definition timeout_fired :: "timer \<Rightarrow> timer" where
  "timeout_fired t = t\<lparr>timeoutHandle := None\<rparr>"

text \<open>
  The last two statements of \<open>tick\<close>; \<open>now\<close> and \<open>drift\<close> were computed before the
  callback ran, \<open>now2\<close> is the clock reading inside the \<open>setTimeout\<close> call.
\<close>

definition tick_rearm :: "real \<Rightarrow> real \<Rightarrow> real \<Rightarrow> timer \<Rightarrow> timer" where
  "tick_rearm now now2 drift t =
     (let expected' = now + intervalMs t - min drift (intervalMs t - 1)
      in t\<lparr>expected := expected', timeoutHandle := Some (max 0 (expected' - now2))\<rparr>)"

definition timer_stop :: "timer \<Rightarrow> timer" where
  "timer_stop t = t\<lparr>timeoutHandle := None\<rparr>"

definition timer_pause :: "real \<Rightarrow> timer \<Rightarrow> timer" where
  "timer_pause now t =
     (if paused t then t
      else t\<lparr>paused := True, timeoutHandle := None, remainingMs := max 0 (expected t - now)\<rparr>)"

definition timer_resume :: "real \<Rightarrow> timer \<Rightarrow> timer" where
  "timer_resume now t =
     (if \<not> paused t then t
      else t\<lparr>paused := False, expected := now + remainingMs t,
             timeoutHandle := Some (remainingMs t)\<rparr>)"

text \<open>
  The closure of \<open>createDelay\<close>. \<open>promise\<close> is the state of the returned Promise:
  \<open>None\<close> while pending, \<open>Some v\<close> once settled with \<open>v\<close>. A JavaScript Promise settles
  once: calling its resolve function again has no effect.
\<close>

record delay =
  dTimeoutHandle :: "real option"
  promise :: "bool option"
  dPaused :: bool
  dRemainingMs :: real
  startTime :: real

definition resolve :: "bool \<Rightarrow> bool option \<Rightarrow> bool option" where
  "resolve v p = (case p of None \<Rightarrow> Some v | Some x \<Rightarrow> Some x)"

definition new_delay :: "real \<Rightarrow> real \<Rightarrow> delay" where
  "new_delay durationMs now =
     \<lparr> dTimeoutHandle = Some durationMs, promise = None, dPaused = False,
       dRemainingMs = durationMs, startTime = now \<rparr>"

text \<open>The timeout callback of a delay (natural expiry), as far as the closure goes.\<close>

definition delay_expire :: "delay \<Rightarrow> delay" where
  "delay_expire d = d\<lparr>dTimeoutHandle := None, promise := resolve True (promise d)\<rparr>"

definition delay_cancel :: "delay \<Rightarrow> delay" where
  "delay_cancel d = d\<lparr>dTimeoutHandle := None, promise := resolve False (promise d)\<rparr>"

definition delay_pause :: "real \<Rightarrow> delay \<Rightarrow> delay" where
  "delay_pause now d =
     (if dPaused d then d
      else d\<lparr>dPaused := True, dTimeoutHandle := None,
             dRemainingMs := max 0 (dRemainingMs d - (now - startTime d))\<rparr>)"

definition delay_resume :: "real \<Rightarrow> delay \<Rightarrow> delay" where
  "delay_resume now d =
     (if \<not> dPaused d then d
      else d\<lparr>dPaused := False, startTime := now, dTimeoutHandle := Some (dRemainingMs d)\<rparr>)"


section \<open>The running program: module variables, closures and suspended procedures\<close>

datatype prefix = ExposureP | ConditionP

definition prefix_of :: "phase \<Rightarrow> prefix" where
  "prefix_of ph = (if ph = Exposure then ExposureP else ConditionP)"

datatype screen_name = IntroS | ExposureS | TransitionS | ConditionS | EndS

datatype choice = SmallerSooner | LargerLater

text \<open>
  One row pushed by \<open>recordTrial\<close> (data.js): the five values handed over by the engine and
  the store fields read at recording time. Participant columns and the timestamp are left
  out. \<open>Math.round\<close> is the identity on the integers it is applied to.
\<close>

record trial =
  trPhase :: phase
  trTrialNumber :: int
  trChoice :: choice
  delayAtChoice :: int
  pointsEarned :: int
  energyBefore :: int
  energyAfter :: int
  trTotalEnergyGained :: int
  trConditionElapsedMs :: int

text \<open>
  An \<open>async\<close> choice procedure suspended at an \<open>await\<close> is the Promise it waits for and
  the rest of its body with the local constants that rest uses (\<open>phase\<close>, \<open>delayMs\<close>,
  \<open>energyBefore\<close>). The Promise of an eating animation is named by the number of its
  \<open>cleanup\<close> closure, the Promise of a delay by the delay's id.
\<close>

datatype awaiting = AwaitAnim nat | AwaitDelay nat

datatype cont =
    FishAfterAnim phase int
  | LLAfterDelay phase int int
  | LLAfterAnim phase int int

record world =
  store :: state
  trials :: "trial list"
  drainTimer :: "nat option"
  conditionCountdown :: "nat option"
  activeDelay :: "nat option"
  delayCountdownTimer :: "nat option"
  timerId :: nat
  activeTimers :: "nat list"
  timers :: "nat \<Rightarrow> timer option"
  delays :: "nat \<Rightarrow> delay option"
  animCleanup :: "prefix \<Rightarrow> nat option"
  animTimeouts :: "(nat \<times> prefix) list"
  animIds :: nat
  suspended :: "(awaiting \<times> cont) list"
  microtasks :: "(cont \<times> bool) list"
  screen :: screen_name
  btnReadyDisabled :: bool
  continueTarget :: "condition_id option"
  gameOverShown :: nat

text \<open>
  \<^item> \<open>drainTimer\<close>, \<open>conditionCountdown\<close>, \<open>activeDelay\<close>, \<open>delayCountdownTimer\<close>: the module
    variables of engine.js, holding the id of the closure they reference;
  \<^item> \<open>timerId\<close>, \<open>activeTimers\<close>: the counter and the registry (a Map, in insertion order) of
    timer.js; \<open>timers\<close> and \<open>delays\<close> hold every closure ever created, registered or not;
  \<^item> \<open>animCleanup\<close>: the \<open>_animCleanup\<close> property of the two alligator elements;
    \<open>animTimeouts\<close>: the pending timeouts of \<open>playEatingAnimation\<close>, which nothing clears;
    \<open>animIds\<close> numbers the \<open>cleanup\<close> closures;
  \<^item> \<open>suspended\<close>: the choice procedures waiting at an \<open>await\<close>; \<open>microtasks\<close>: those whose
    Promise has settled, with the settled value, in the order they will resume;
  \<^item> \<open>screen\<close>, \<open>btnReadyDisabled\<close>, \<open>continueTarget\<close>: the active screen, the \<open>disabled\<close>
    flag of the ready button and the condition captured by the continue button's handler;
  \<^item> \<open>gameOverShown\<close> counts the calls \<open>showGameOver(true)\<close>, one per run of
    \<open>triggerGameOver\<close>.
\<close>

definition setState :: "(state \<Rightarrow> state) \<Rightarrow> world \<Rightarrow> world" where
  "setState f w = w\<lparr>store := f (store w)\<rparr>"

definition upd_timer :: "nat \<Rightarrow> (timer \<Rightarrow> timer) \<Rightarrow> world \<Rightarrow> world" where
  "upd_timer i f w =
     (case timers w i of None \<Rightarrow> w | Some t \<Rightarrow> w\<lparr>timers := (timers w)(i \<mapsto> f t)\<rparr>)"

definition upd_delay :: "nat \<Rightarrow> (delay \<Rightarrow> delay) \<Rightarrow> world \<Rightarrow> world" where
  "upd_delay i f w =
     (case delays w i of None \<Rightarrow> w | Some d \<Rightarrow> w\<lparr>delays := (delays w)(i \<mapsto> f d)\<rparr>)"

text \<open>A Promise settles: the procedures awaiting it are queued to resume with its value.\<close>

definition settle :: "awaiting \<Rightarrow> bool \<Rightarrow> world \<Rightarrow> world" where
  "settle a v w =
     w\<lparr>microtasks := microtasks w @ map (\<lambda>p. (snd p, v)) (filter (\<lambda>p. fst p = a) (suspended w)),
       suspended := filter (\<lambda>p. fst p \<noteq> a) (suspended w)\<rparr>"

definition createTimer :: "callback \<Rightarrow> real \<Rightarrow> real \<Rightarrow> world \<Rightarrow> nat \<times> world" where
  "createTimer cb interval now w =
     (let i = timerId w + 1
      in (i, w\<lparr>timerId := i, timers := (timers w)(i \<mapsto> new_timer cb interval now),
               activeTimers := activeTimers w @ [i]\<rparr>))"

text \<open>\<open>stop\<close> of a repeating timer.\<close>

definition stop :: "nat \<Rightarrow> world \<Rightarrow> world" where
  "stop i w = (upd_timer i timer_stop w)\<lparr>activeTimers := removeAll i (activeTimers w)\<rparr>"

definition createDelay :: "real \<Rightarrow> real \<Rightarrow> world \<Rightarrow> nat \<times> world" where
  "createDelay durationMs now w =
     (let i = timerId w + 1
      in (i, w\<lparr>timerId := i, delays := (delays w)(i \<mapsto> new_delay durationMs now),
               activeTimers := activeTimers w @ [i]\<rparr>))"

definition cancel :: "nat \<Rightarrow> world \<Rightarrow> world" where
  "cancel i w =
     (case delays w i of None \<Rightarrow> w
      | Some d \<Rightarrow>
          let w1 = w\<lparr>delays := (delays w)(i \<mapsto> delay_cancel d),
                     activeTimers := removeAll i (activeTimers w)\<rparr>
          in if promise d = None then settle (AwaitDelay i) False w1 else w1)"

text \<open>The timeout of a delay runs: \<open>activeTimers.delete(id); resolve(true)\<close>.\<close>

definition delay_fire :: "nat \<Rightarrow> world \<Rightarrow> world" where
  "delay_fire i w =
     (case delays w i of None \<Rightarrow> w
      | Some d \<Rightarrow>
          let w1 = w\<lparr>delays := (delays w)(i \<mapsto> delay_expire d),
                     activeTimers := removeAll i (activeTimers w)\<rparr>
          in if promise d = None then settle (AwaitDelay i) True w1 else w1)"

text \<open>
  The registry maps an id to the handle object \<open>{id, stop, pause, resume}\<close> of either kind
  of closure; for a delay \<open>stop\<close> is \<open>cancel\<close>. Ids are drawn from one counter, so an id
  names a timer or a delay, never both.
\<close>

definition stop_entry :: "world \<Rightarrow> nat \<Rightarrow> world" where
  "stop_entry w i = (case timers w i of Some t \<Rightarrow> stop i w | None \<Rightarrow> cancel i w)"

definition stopAllTimers :: "world \<Rightarrow> world" where
  "stopAllTimers w = (foldl stop_entry w (activeTimers w))\<lparr>activeTimers := []\<rparr>"

definition pause_entry :: "real \<Rightarrow> world \<Rightarrow> nat \<Rightarrow> world" where
  "pause_entry now w i = upd_delay i (delay_pause now) (upd_timer i (timer_pause now) w)"

definition pauseAllTimers :: "real \<Rightarrow> world \<Rightarrow> world" where
  "pauseAllTimers now w = foldl (pause_entry now) w (activeTimers w)"

definition resume_entry :: "real \<Rightarrow> world \<Rightarrow> nat \<Rightarrow> world" where
  "resume_entry now w i = upd_delay i (delay_resume now) (upd_timer i (timer_resume now) w)"

definition resumeAllTimers :: "real \<Rightarrow> world \<Rightarrow> world" where
  "resumeAllTimers now w = foldl (resume_entry now) w (activeTimers w)"


section \<open>Eating animation (animations.js)\<close>

text \<open>
  \<open>playEatingAnimation\<close> stores a fresh \<open>cleanup\<close> closure on the alligator element and
  arms a timeout that calls it if it is still the element's \<open>_animCleanup\<close>. Only the
  element (named by its screen prefix) and the identity of the closure matter here; the
  CSS classes are presentation.
\<close>

definition playEatingAnimation :: "prefix \<Rightarrow> world \<Rightarrow> nat \<times> world" where
  "playEatingAnimation el w =
     (let a = animIds w + 1
      in (a, w\<lparr>animIds := a, animCleanup := (animCleanup w)(el \<mapsto> a),
               animTimeouts := animTimeouts w @ [(a, el)]\<rparr>))"

definition anim_fire :: "nat \<Rightarrow> world \<Rightarrow> world" where
  "anim_fire a w =
     (case find (\<lambda>p. fst p = a) (animTimeouts w) of None \<Rightarrow> w
      | Some p \<Rightarrow>
          let w1 = w\<lparr>animTimeouts := filter (\<lambda>q. fst q \<noteq> a) (animTimeouts w)\<rparr>
          in if animCleanup w1 (snd p) = Some a
             then settle (AwaitAnim a) True (w1\<lparr>animCleanup := (animCleanup w1)(snd p := None)\<rparr>)
             else w1)"

definition interruptAnimation :: "prefix \<Rightarrow> world \<Rightarrow> world" where
  "interruptAnimation el w =
     (case animCleanup w el of None \<Rightarrow> w
      | Some a \<Rightarrow> settle (AwaitAnim a) True (w\<lparr>animCleanup := (animCleanup w)(el := None)\<rparr>))"


section \<open>Data sink and presentation hooks that keep state (data.js, ui.js)\<close>

definition recordTrial :: "choice \<Rightarrow> int \<Rightarrow> int \<Rightarrow> int \<Rightarrow> int \<Rightarrow> world \<Rightarrow> world" where
  "recordTrial ch dac pts eb ea w =
     w\<lparr>trials := trials w @
         [\<lparr> trPhase = phase (store w), trTrialNumber = trialNumber (store w), trChoice = ch,
            delayAtChoice = dac, pointsEarned = pts, energyBefore = eb, energyAfter = ea,
            trTotalEnergyGained = totalEnergyGained (store w),
            trConditionElapsedMs = conditionElapsedMs (store w) \<rparr>]\<rparr>"

definition updateExposureStatus :: "world \<Rightarrow> world" where
  "updateExposureStatus w =
     (let fishDone = (exposureFishCount (store w) \<ge> EXPOSURE_MIN_FISH);
          llDone = (exposureLLCount (store w) \<ge> EXPOSURE_MIN_LL)
      in w\<lparr>btnReadyDisabled := \<not> (fishDone \<and> llDone)\<rparr>)"


section \<open>The engine (engine.js)\<close>

subsection \<open>Point drain and game over\<close>

definition startDrain :: "real \<Rightarrow> real \<Rightarrow> world \<Rightarrow> world" where
  "startDrain interval now w =
     (let (i, w1) = createTimer DrainCb interval now w in w1\<lparr>drainTimer := Some i\<rparr>)"

definition stopDrain :: "world \<Rightarrow> world" where
  "stopDrain w =
     (case drainTimer w of None \<Rightarrow> w | Some i \<Rightarrow> (stop i w)\<lparr>drainTimer := None\<rparr>)"

definition triggerGameOver :: "world \<Rightarrow> world" where
  "triggerGameOver w =
     (let w1 = setState (\<lambda>s. s\<lparr>isDead := True, choicesDisabled := True\<rparr>) w;
          w2 = interruptAnimation (prefix_of (phase (store w1))) w1;
          w3 = (case activeDelay w2 of None \<Rightarrow> w2
                | Some d \<Rightarrow> (cancel d w2)\<lparr>activeDelay := None\<rparr>);
          w4 = (case delayCountdownTimer w3 of None \<Rightarrow> w3
                | Some t \<Rightarrow> (stop t w3)\<lparr>delayCountdownTimer := None\<rparr>);
          w5 = w4\<lparr>gameOverShown := gameOverShown w4 + 1\<rparr>
      in stopDrain w5)"

text \<open>The callback of the drain timer.\<close>

definition drain_callback :: "world \<Rightarrow> world" where
  "drain_callback w =
     (let energy = currentEnergy (store w)
      in if energy \<le> 0 then w
         else let newEnergy = max 0 (energy - 1);
                  w1 = setState (\<lambda>s. s\<lparr>currentEnergy := newEnergy\<rparr>) w
              in if newEnergy \<le> 0 then triggerGameOver w1 else w1)"

subsection \<open>Trial flow\<close>

text \<open>
  The part of a choice procedure that runs when its \<open>await\<close> resumes; the second argument
  is the value of the awaited Promise (\<open>completed\<close> for the delay, unused for an animation).
\<close>

fun run_cont :: "cont \<Rightarrow> bool \<Rightarrow> world \<Rightarrow> world" where
  "run_cont (FishAfterAnim ph eb) v w =
     (if isDead (store w) then setState (\<lambda>s. s\<lparr>isAnimating := False\<rparr>) w
      else
        let reward = SMALLER_SOONER_REWARD;
            newEnergy = min MAX_ENERGY (currentEnergy (store w) + reward);
            totalGained = totalEnergyGained (store w) + reward;
            w1 = setState (\<lambda>s. s\<lparr>currentEnergy := newEnergy, totalEnergyGained := totalGained,
                                  isAnimating := False, choicesDisabled := False\<rparr>) w;
            dac = currentDelayMs (store w1);
            w2 = setState (adjustDelay Increase) w1;
            w3 = recordTrial SmallerSooner dac reward eb newEnergy w2
        in if ph = Exposure
           then updateExposureStatus
                  (setState (\<lambda>s. s\<lparr>exposureFishCount := exposureFishCount s + 1\<rparr>) w3)
           else w3)"
| "run_cont (LLAfterDelay ph delayMs eb) completed w =
     (let w1 = w\<lparr>activeDelay := None\<rparr>;
          w2 = (case delayCountdownTimer w1 of None \<Rightarrow> w1
                | Some t \<Rightarrow> (stop t w1)\<lparr>delayCountdownTimer := None\<rparr>)
      in if \<not> completed \<or> isDead (store w2)
         then setState (\<lambda>s. s\<lparr>isWaitingDelay := False, isAnimating := False\<rparr>) w2
         else
           let w3 = setState (\<lambda>s. s\<lparr>isWaitingDelay := False, isAnimating := True\<rparr>) w2;
               (a, w4) = playEatingAnimation (prefix_of ph) w3
           in w4\<lparr>suspended := suspended w4 @ [(AwaitAnim a, LLAfterAnim ph delayMs eb)]\<rparr>)"
| "run_cont (LLAfterAnim ph delayMs eb) v w =
     (if isDead (store w) then setState (\<lambda>s. s\<lparr>isAnimating := False\<rparr>) w
      else
        let reward = (if ph = Exposure then EXPOSURE_REWARD else rewardAmount (store w));
            newEnergy = min MAX_ENERGY (currentEnergy (store w) + reward);
            totalGained = totalEnergyGained (store w) + reward;
            w1 = setState (\<lambda>s. s\<lparr>currentEnergy := newEnergy, totalEnergyGained := totalGained,
                                  isAnimating := False, choicesDisabled := False\<rparr>) w;
            w2 = setState (adjustDelay Decrease) w1;
            w3 = recordTrial LargerLater delayMs reward eb newEnergy w2
        in if ph = Exposure
           then updateExposureStatus
                  (setState (\<lambda>s. s\<lparr>exposureLLCount := exposureLLCount s + 1\<rparr>) w3)
           else w3)"

text \<open>The guard both choice handlers start with.\<close>

definition choice_rejected :: "state \<Rightarrow> bool" where
  "choice_rejected s \<longleftrightarrow> choicesDisabled s \<or> isDead s \<or> isAnimating s \<or> isWaitingDelay s"

text \<open>\<open>handleFishChoice\<close> up to its \<open>await\<close>.\<close>

definition handleFishChoice :: "world \<Rightarrow> world" where
  "handleFishChoice w =
     (if choice_rejected (store w) then w
      else
        let ph = phase (store w);
            trialNum = trialNumber (store w) + 1;
            w1 = setState (\<lambda>s. s\<lparr>trialNumber := trialNum, isAnimating := True,
                                  choicesDisabled := True\<rparr>) w;
            eb = currentEnergy (store w1);
            (a, w2) = playEatingAnimation (prefix_of ph) w1
        in w2\<lparr>suspended := suspended w2 @ [(AwaitAnim a, FishAfterAnim ph eb)]\<rparr>)"

text \<open>\<open>handleLLChoice\<close> up to its first \<open>await\<close>.\<close>

definition handleLLChoice :: "real \<Rightarrow> world \<Rightarrow> world" where
  "handleLLChoice now w =
     (if choice_rejected (store w) then w
      else
        let ph = phase (store w);
            trialNum = trialNumber (store w) + 1;
            delayMs = currentDelayMs (store w);
            w1 = setState (\<lambda>s. s\<lparr>trialNumber := trialNum, isWaitingDelay := True,
                                  choicesDisabled := True\<rparr>) w;
            eb = currentEnergy (store w1);
            (t, w2) = createTimer (DelayVisualCb delayMs) 100 now w1;
            w3 = w2\<lparr>delayCountdownTimer := Some t\<rparr>;
            (d, w4) = createDelay (real_of_int delayMs) now w3;
            w5 = w4\<lparr>activeDelay := Some d\<rparr>
        in w5\<lparr>suspended := suspended w5 @ [(AwaitDelay d, LLAfterDelay ph delayMs eb)]\<rparr>)"

subsection \<open>Reset for a new segment\<close>

definition resetForNewPhase :: "world \<Rightarrow> world" where
  "resetForNewPhase w =
     (let w1 = stopAllTimers w;
          w2 = w1\<lparr>drainTimer := None, conditionCountdown := None, activeDelay := None,
                  delayCountdownTimer := None\<rparr>
      in setState (\<lambda>s. s\<lparr>currentEnergy := STARTING_ENERGY, currentDelayMs := INITIAL_DELAY_MS,
                           trialNumber := 0, isAnimating := False, isWaitingDelay := False,
                           isDead := False, choicesDisabled := False, conditionElapsedMs := 0,
                           daysLeft := DAYS_PER_CONDITION\<rparr>) w2)"

definition startConditionTimer :: "on_complete \<Rightarrow> real \<Rightarrow> world \<Rightarrow> world" where
  "startConditionTimer oc now w =
     (let (i, w1) = createTimer (ConditionCb DAYS_PER_CONDITION oc) 1000 now w
      in w1\<lparr>conditionCountdown := Some i\<rparr>)"


section \<open>Screen flow (screens.js)\<close>

text \<open>
  The functions of the screen flow that touch the store, the timers or the engine.
  \<open>recordConditionSummary\<close> only reads the store and appends to a list nothing else
  reads; it is left out. A function whose JavaScript can throw returns, next to the world
  it leaves behind, whether it threw.
\<close>

definition assignGroup :: "group_id \<Rightarrow> world \<Rightarrow> world" where
  "assignGroup g w = setState (\<lambda>s. s\<lparr>group := Some g, rewardAmount := group_rewardAmount g\<rparr>) w"

definition endGame :: "world \<Rightarrow> world" where
  "endGame w = (stopAllTimers (setState (\<lambda>s. s\<lparr>phase := End\<rparr>) w))\<lparr>screen := EndS\<rparr>"

text \<open>
  \<open>CONFIG.GROUPS[group].conditionOrder\<close> throws a TypeError when \<open>group\<close> is still null,
  and \<open>setTransitionContent\<close> throws when \<open>conditionOrder[idx]\<close> is undefined.
\<close>

definition nextCondition :: "world \<Rightarrow> world \<times> bool" where
  "nextCondition w =
     (let idx = conditionIndex (store w) + 1
      in case group (store w) of None \<Rightarrow> (w, True)
         | Some g \<Rightarrow>
             if idx \<ge> int (length (conditionOrder g)) then (endGame w, False)
             else
               let w1 = setState (\<lambda>s. s\<lparr>conditionIndex := idx\<rparr>) w
               in if idx < 0 then (w1, True)
                  else
                    let c = conditionOrder g ! nat idx;
                        w2 = w1\<lparr>screen := TransitionS\<rparr>;
                        w3 = setState (\<lambda>s. s\<lparr>phase := Transition\<rparr>) w2
                    in (w3\<lparr>continueTarget := Some c\<rparr>, False))"

definition startConditionSequence :: "world \<Rightarrow> world \<times> bool" where
  "startConditionSequence w = nextCondition (setState (\<lambda>s. s\<lparr>conditionIndex := -1\<rparr>) w)"

text \<open>
  The two closures the screen flow passes to \<open>startConditionTimer\<close>; the first is also the
  body of the ready button's handler.
\<close>

fun run_on_complete :: "on_complete \<Rightarrow> world \<Rightarrow> world \<times> bool" where
  "run_on_complete ExposureExpired w = startConditionSequence (stopAllTimers w)"
| "run_on_complete ConditionExpired w = nextCondition (stopAllTimers w)"

definition startExposure :: "real \<Rightarrow> world \<Rightarrow> world" where
  "startExposure now w =
     (let w1 = setState (\<lambda>s. s\<lparr>phase := Exposure, conditionId := None,
                                exposureFishCount := 0, exposureLLCount := 0\<rparr>) w;
          w2 = resetForNewPhase w1;
          w3 = w2\<lparr>screen := ExposureS\<rparr>;
          w4 = updateExposureStatus w3;
          w5 = startDrain EXPOSURE_DRAIN_INTERVAL_MS now w4
      in startConditionTimer ExposureExpired now w5)"

definition startCondition :: "condition_id \<Rightarrow> real \<Rightarrow> world \<Rightarrow> world" where
  "startCondition c now w =
     (let w1 = setState (\<lambda>s. s\<lparr>phase := Condition, conditionId := Some c\<rparr>) w;
          w2 = resetForNewPhase w1;
          w3 = w2\<lparr>screen := ConditionS\<rparr>;
          w4 = startDrain (drainIntervalMs c) now w3
      in startConditionTimer ConditionExpired now w4)"


section \<open>Timer callbacks and the tick\<close>

text \<open>\<open>Math.ceil(a / b)\<close> for an integer \<open>a\<close> and a positive integer \<open>b\<close>.\<close>

definition ceil_div :: "int \<Rightarrow> int \<Rightarrow> int" where
  "ceil_div a b = - ((- a) div b)"

text \<open>
  The callback of the segment countdown, running in the tick of timer \<open>i\<close> with its local
  \<open>lastDay\<close>. The statements that compute and display the days left are
  \<open>update_days_left\<close>. \<open>conditionCountdown.stop()\<close> throws a TypeError when the module
  variable is null.
\<close>

definition update_days_left :: "nat \<Rightarrow> int \<Rightarrow> on_complete \<Rightarrow> int \<Rightarrow> world \<Rightarrow> world" where
  "update_days_left i lastDay oc remaining w =
     (let dayLength = CONDITION_DURATION_MS div DAYS_PER_CONDITION;
          days = min DAYS_PER_CONDITION (ceil_div remaining dayLength)
      in if days \<noteq> lastDay
         then setState (\<lambda>s. s\<lparr>daysLeft := days\<rparr>)
                (upd_timer i (\<lambda>t. t\<lparr>callback := ConditionCb days oc\<rparr>) w)
         else w)"

definition condition_callback :: "nat \<Rightarrow> int \<Rightarrow> on_complete \<Rightarrow> world \<Rightarrow> world \<times> bool" where
  "condition_callback i lastDay oc w =
     (let duration = CONDITION_DURATION_MS;
          elapsed = conditionElapsedMs (store w) + 1000;
          w1 = setState (\<lambda>s. s\<lparr>conditionElapsedMs := elapsed\<rparr>) w;
          remaining = max 0 (duration - elapsed);
          w2 = update_days_left i lastDay oc remaining w1
      in if remaining \<le> 0
         then (case conditionCountdown w2 of None \<Rightarrow> (w2, True)
               | Some c \<Rightarrow> run_on_complete oc ((stop c w2)\<lparr>conditionCountdown := None\<rparr>))
         else (w2, False))"

definition run_callback :: "nat \<Rightarrow> callback \<Rightarrow> world \<Rightarrow> world \<times> bool" where
  "run_callback i cb w =
     (case cb of
        DrainCb \<Rightarrow> (drain_callback w, False)
      | ConditionCb lastDay oc \<Rightarrow> condition_callback i lastDay oc w
      | DelayVisualCb r \<Rightarrow> (upd_timer i (\<lambda>t. t\<lparr>callback := DelayVisualCb (r - 100)\<rparr>) w, False))"

text \<open>
  \<open>tick\<close> of timer \<open>i\<close>. The callback may change the closure (a \<open>stop\<close> of this very timer
  sets its handle to null); the re-arming that follows acts on what the callback left. An
  exception thrown by the callback leaves \<open>tick\<close> before the re-arming.
\<close>

definition tick :: "nat \<Rightarrow> real \<Rightarrow> real \<Rightarrow> world \<Rightarrow> world" where
  "tick i now now2 w =
     (case timers w i of None \<Rightarrow> w
      | Some t \<Rightarrow>
          if paused t then w
          else
            let drift = now - expected t;
                (w1, threw) = run_callback i (callback t) w
            in if threw then w1 else upd_timer i (tick_rearm now now2 drift) w1)"


section \<open>The event loop\<close>

text \<open>
  One event is one task of the host's event loop: a click, a timeout that runs, or a
  visibility change. Clicks reach a handler only while its screen is shown (and, for the
  ready button, while it is enabled); the choice buttons' own \<open>disabled\<close> flag is not
  modelled, the handlers re-check the store themselves. A timeout can run only while it is
  pending; the model does not order pending timeouts by their due times. After the task,
  the procedures whose Promise settled resume, in the order of settlement.
\<close>

datatype event =
    StartClick group_id real
  | FishClick
  | LLClick real
  | ReadyClick
  | ContinueClick real
  | TimerFire nat real real
  | DelayFire nat
  | AnimFire nat
  | Hidden real
  | Visible real

definition task :: "event \<Rightarrow> world \<Rightarrow> world" where
  "task ev w =
     (case ev of
        StartClick g now \<Rightarrow>
          if screen w = IntroS then startExposure now (assignGroup g w) else w
      | FishClick \<Rightarrow>
          if screen w = ExposureS \<or> screen w = ConditionS then handleFishChoice w else w
      | LLClick now \<Rightarrow>
          if screen w = ExposureS \<or> screen w = ConditionS then handleLLChoice now w else w
      | ReadyClick \<Rightarrow>
          if screen w = ExposureS \<and> \<not> btnReadyDisabled w
          then fst (run_on_complete ExposureExpired w) else w
      | ContinueClick now \<Rightarrow>
          if screen w = TransitionS
          then (case continueTarget w of None \<Rightarrow> w | Some c \<Rightarrow> startCondition c now w)
          else w
      | TimerFire i now now2 \<Rightarrow>
          (case timers w i of None \<Rightarrow> w
           | Some t \<Rightarrow>
               if timeoutHandle t = None then w
               else tick i now now2 (upd_timer i timeout_fired w))
      | DelayFire i \<Rightarrow>
          (case delays w i of None \<Rightarrow> w
           | Some d \<Rightarrow> if dTimeoutHandle d = None then w else delay_fire i w)
      | AnimFire a \<Rightarrow> anim_fire a w
      | Hidden now \<Rightarrow> pauseAllTimers now (setState (\<lambda>s. s\<lparr>tabHidden := True\<rparr>) w)
      | Visible now \<Rightarrow> resumeAllTimers now (setState (\<lambda>s. s\<lparr>tabHidden := False\<rparr>) w))"

definition run_microtasks :: "world \<Rightarrow> world" where
  "run_microtasks w =
     foldl (\<lambda>w' p. run_cont (fst p) (snd p) w') (w\<lparr>microtasks := []\<rparr>) (microtasks w)"

definition step :: "event \<Rightarrow> world \<Rightarrow> world" where
  "step ev w = run_microtasks (task ev w)"

definition run :: "event list \<Rightarrow> world \<Rightarrow> world" where
  "run evs w = foldl (\<lambda>w' ev. step ev w') w evs"

definition initial_world :: world where
  "initial_world =
     \<lparr> store = initialState, trials = [], drainTimer = None, conditionCountdown = None,
       activeDelay = None, delayCountdownTimer = None, timerId = 0, activeTimers = [],
       timers = (\<lambda>i. None), delays = (\<lambda>i. None), animCleanup = (\<lambda>el. None),
       animTimeouts = [], animIds = 0, suspended = [], microtasks = [],
       screen = IntroS, btnReadyDisabled = True, continueTarget = None, gameOverShown = 0 \<rparr>"

inductive reachable :: "world \<Rightarrow> bool" where
  reachable_init: "reachable initial_world"
| reachable_step: "reachable w \<Longrightarrow> reachable (step ev w)"


section \<open>Observers and example states\<close>

text \<open>The value of the completion signal of delay \<open>i\<close>: \<open>None\<close> while it is pending.\<close>

definition signal :: "nat \<Rightarrow> world \<Rightarrow> bool option" where
  "signal i w = (case delays w i of None \<Rightarrow> None | Some d \<Rightarrow> promise d)"

text \<open>The initial program with one drain timer, and with one delay of six seconds.\<close>

definition drain_world :: world where
  "drain_world = snd (createTimer DrainCb 3000 0 initial_world)"

definition delay_world :: world where
  "delay_world = snd (createDelay 6000 0 initial_world)"

text \<open>
  The program after the start button and one delayed choice: the choice procedure waits
  for its delay. \<open>dying_world\<close> is that state with one point of energy left, \<open>dead_world\<close>
  the initial program with a drain timer and no energy.
\<close>

definition waiting_world :: world where
  "waiting_world = run [StartClick GroupA 0, LLClick 5] initial_world"

definition dying_world :: world where
  "dying_world = setState (\<lambda>s. s\<lparr>currentEnergy := 1\<rparr>) waiting_world"

definition dead_world :: world where
  "dead_world = setState (\<lambda>s. s\<lparr>currentEnergy := 0\<rparr>) drain_world"


text \<open>
  A whole exposure phase: three immediate and three delayed choices, each run to its reward.
  \<open>between_world\<close> is the state after the ready button, \<open>stuck_world\<close> the state when the
  ready button is pressed while a fourth delayed choice is still waiting. The host may run
  a timeout late, and the trace leaves out the ticks of the drain timer and of the
  countdowns that fall into this time; they change the energy and the elapsed time, not the
  course of the choices.
\<close>

definition ready_world :: world where
  "ready_world =
     run [StartClick GroupA 0,
          FishClick, AnimFire 1, FishClick, AnimFire 2, FishClick, AnimFire 3,
          LLClick 3000, DelayFire 4, AnimFire 4,
          LLClick 16000, DelayFire 6, AnimFire 5,
          LLClick 27000, DelayFire 8, AnimFire 6] initial_world"

definition between_world :: world where
  "between_world = step ReadyClick ready_world"

definition stuck_world :: world where
  "stuck_world = run [LLClick 36000, ReadyClick] ready_world"


text \<open>
  \<open>started_world\<close> is the program right after the start button. In \<open>stale_world\<close> the
  ready button is pressed while the animation of a fourth immediate choice still runs; the
  first condition starts, a delayed choice is made there, and then the old animation ends.
\<close>

definition stale_world :: world where
  "stale_world =
     run [FishClick, ReadyClick, ContinueClick 36400, LLClick 36700, AnimFire 7] ready_world"

definition started_world :: world where
  "started_world = step (StartClick GroupA 0) initial_world"


section \<open>A session in which the player never chooses\<close>

text \<open>
  The player presses start and then leaves the choices alone. Every timeout runs exactly
  when it is due: the segment countdown (timer 2) every second, the drain timer (timer 1)
  every three seconds. \<open>idle_exposure a c\<close> is the program after \<open>a\<close> ticks of the drain
  timer and \<open>c\<close> ticks of the countdown, as long as the exposure phase lasts;
  \<open>days_shown c\<close> is the number of days left that the countdown has displayed by then.
\<close>

definition days_shown :: "nat \<Rightarrow> int" where
  "days_shown c =
     min DAYS_PER_CONDITION
       (ceil_div (max 0 (CONDITION_DURATION_MS - 1000 * int c))
          (CONDITION_DURATION_MS div DAYS_PER_CONDITION))"

definition idle_exposure :: "nat \<Rightarrow> nat \<Rightarrow> world" where
  "idle_exposure a c =
     \<lparr> store = initialState\<lparr>group := Some GroupA, rewardAmount := 5, phase := Exposure,
                 currentEnergy := max 0 (50 - int a), conditionElapsedMs := 1000 * int c,
                 daysLeft := days_shown c, isDead := (50 \<le> a), choicesDisabled := (50 \<le> a)\<rparr>,
       trials = [], drainTimer = (if a < 50 then Some 1 else None),
       conditionCountdown = Some 2, activeDelay = None, delayCountdownTimer = None,
       timerId = 2, activeTimers = (if a < 50 then [1, 2] else [2]),
       timers = (\<lambda>i. None)
         (1 \<mapsto> \<lparr> callback = DrainCb, intervalMs = 3000, expected = 3000 * real (Suc a),
                timeoutHandle = Some 3000, paused = False, remainingMs = 0 \<rparr>,
          2 \<mapsto> \<lparr> callback = ConditionCb (days_shown c) ExposureExpired, intervalMs = 1000,
                expected = 1000 * real (Suc c), timeoutHandle = Some 1000, paused = False,
                remainingMs = 0 \<rparr>),
       delays = (\<lambda>i. None), animCleanup = (\<lambda>el. None), animTimeouts = [], animIds = 0,
       suspended = [], microtasks = [], screen = ExposureS, btnReadyDisabled = True,
       continueTarget = None, gameOverShown = (if a < 50 then 0 else 1) \<rparr>"

text \<open>
  The timeouts of timers 1 and 2 that fall into the three seconds after \<open>3000 * m\<close> ms, in
  the order in which they are due. The whole exposure phase is a hundred of these: the
  energy is used up after 150 s, and the countdown expires after 300 s and shows the
  transition screen.
\<close>

definition three_seconds :: "nat \<Rightarrow> event list" where
  "three_seconds m =
     [TimerFire 2 (1000 * real (3 * m + 1)) (1000 * real (3 * m + 1)),
      TimerFire 2 (1000 * real (3 * m + 2)) (1000 * real (3 * m + 2)),
      TimerFire 1 (1000 * real (3 * m + 3)) (1000 * real (3 * m + 3)),
      TimerFire 2 (1000 * real (3 * m + 3)) (1000 * real (3 * m + 3))]"

definition idle_exposure_events :: "event list" where
  "idle_exposure_events = StartClick GroupA 0 # concat (map three_seconds [0..<100])"

definition expired_world :: world where
  "expired_world = run idle_exposure_events initial_world"

text \<open>
  Half a second later the player continues to the first condition. In
  \<open>second_segment_events\<close> the tab stays visible and the timeouts of the first three
  seconds run, those of the new countdown (timer 4) included. In \<open>hidden_world\<close> the tab
  is hidden 200 ms after the condition started.
\<close>

definition restarted_world :: world where
  "restarted_world = step (ContinueClick 300500) expired_world"

definition second_segment_events :: "event list" where
  "second_segment_events =
     [TimerFire 2 301000 301000, TimerFire 4 301500 301500,
      TimerFire 2 302000 302000, TimerFire 4 302500 302500]"

definition hidden_world :: world where
  "hidden_world = step (Hidden 300700) restarted_world"

text \<open>The timeouts of timers 1 and 2 in the 150 s after the condition started.\<close>

definition hidden_events :: "event list" where
  "hidden_events = concat (map three_seconds [100..<150])"

text \<open>Timer \<open>i\<close> is a drain timer, or a segment countdown, with a timeout pending.\<close>

definition pending_drain :: "world \<Rightarrow> nat \<Rightarrow> bool" where
  "pending_drain w i =
     (case timers w i of None \<Rightarrow> False
      | Some t \<Rightarrow> callback t = DrainCb \<and> timeoutHandle t \<noteq> None \<and> \<not> paused t)"

definition pending_countdown :: "world \<Rightarrow> nat \<Rightarrow> bool" where
  "pending_countdown w i =
     (case timers w i of None \<Rightarrow> False
      | Some t \<Rightarrow>
          (case callback t of ConditionCb lastDay oc \<Rightarrow> True | DrainCb \<Rightarrow> False
           | DelayVisualCb r \<Rightarrow> False)
          \<and> timeoutHandle t \<noteq> None \<and> \<not> paused t)"

text \<open>
  A summary of the program state: energy, dead flag, hidden flag, elapsed time of the
  segment and the number of times game over has run.
\<close>

definition status :: "world \<Rightarrow> int \<times> bool \<times> bool \<times> int \<times> nat" where
  "status w =
     (currentEnergy (store w), isDead (store w), tabHidden (store w),
      conditionElapsedMs (store w), gameOverShown w)"


section \<open>Predicates used in the proofs\<close>

text \<open>
  The four observable quantities the trial logic accounts for: energy, total gained, the
  staircase delay and the list of recorded trials.
\<close>

definition acct :: "world \<Rightarrow> int \<times> int \<times> int \<times> trial list" where
  "acct w =
     (currentEnergy (store w), totalEnergyGained (store w), currentDelayMs (store w), trials w)"

fun is_delay_cont :: "cont \<Rightarrow> bool" where
  "is_delay_cont (LLAfterDelay ph d e) = True"
| "is_delay_cont (FishAfterAnim ph e) = False"
| "is_delay_cont (LLAfterAnim ph d e) = False"

text \<open>
  A suspended procedure is well-formed when the Promise it awaits exists already and is of
  the kind its continuation expects.
\<close>

fun await_ok :: "nat \<Rightarrow> nat \<Rightarrow> awaiting \<times> cont \<Rightarrow> bool" where
  "await_ok na nt (AwaitAnim a, k) = (a \<le> na \<and> \<not> is_delay_cont k)"
| "await_ok na nt (AwaitDelay d, k) = (d \<le> nt \<and> is_delay_cont k)"

definition susp_ok :: "world \<Rightarrow> bool" where
  "susp_ok w \<longleftrightarrow>
     list_all (await_ok (animIds w) (timerId w)) (suspended w)
     \<and> distinct (map fst (suspended w))"

definition store_ok :: "state \<Rightarrow> bool" where
  "store_ok s \<longleftrightarrow>
     0 \<le> currentEnergy s \<and> currentEnergy s \<le> MAX_ENERGY \<and> 0 \<le> rewardAmount s
     \<and> MIN_DELAY_MS \<le> currentDelayMs s \<and> \<not> (isAnimating s \<and> isWaitingDelay s)"

text \<open>
  Every procedure waiting for a delay, and every procedure about to resume, is at the
  \<open>await\<close> of a delay.
\<close>

definition dq_ok :: "(awaiting \<times> cont) list \<Rightarrow> (cont \<times> bool) list \<Rightarrow> bool" where
  "dq_ok ps q \<longleftrightarrow>
     list_all (\<lambda>p. case fst p of AwaitDelay i \<Rightarrow> is_delay_cont (snd p) | AwaitAnim a \<Rightarrow> True) ps
     \<and> list_all (\<lambda>x. is_delay_cont (fst x)) q"

text \<open>
  The Promise \<open>a\<close> is the one game over will settle: the animation running on the
  alligator of the current screen, or the engine's active delay while it is pending.
\<close>

definition in_flight :: "world \<Rightarrow> awaiting \<Rightarrow> bool" where
  "in_flight w a =
     (case a of
        AwaitAnim n \<Rightarrow> animCleanup w (prefix_of (phase (store w))) = Some n
      | AwaitDelay d \<Rightarrow>
          activeDelay w = Some d
          \<and> (case delays w d of None \<Rightarrow> False | Some dl \<Rightarrow> promise dl = None))"


text \<open>
  The part of the store that the trial logic reads and writes, and the accounting after a
  reward \<open>r\<close> has been granted with staircase direction \<open>d\<close> and trial record \<open>tr\<close>.
\<close>

definition core :: "state \<Rightarrow> int \<times> int \<times> int \<times> int \<times> bool \<times> bool \<times> bool \<times> bool" where
  "core s = (currentEnergy s, totalEnergyGained s, currentDelayMs s, rewardAmount s,
             isAnimating s, isWaitingDelay s, isDead s, choicesDisabled s)"

definition granted :: "world \<Rightarrow> int \<Rightarrow> direction \<Rightarrow> trial \<Rightarrow> int \<times> int \<times> int \<times> trial list" where
  "granted w r d tr =
     (min MAX_ENERGY (currentEnergy (store w) + r), totalEnergyGained (store w) + r,
      currentDelayMs (adjustDelay d (store w)), trials w @ [tr])"


section \<open>Segments and the engine's status flags\<close>

text \<open>
  The relation between the four status flags: not both busy flags at once, and choices are
  disabled exactly when the engine is animating, waiting for a delay, or dead.
\<close>

definition engine_flags_ok :: "state \<Rightarrow> bool" where
  "engine_flags_ok s \<longleftrightarrow>
     \<not> (isAnimating s \<and> isWaitingDelay s)
     \<and> (choicesDisabled s \<longleftrightarrow> (isAnimating s \<or> isWaitingDelay s \<or> isDead s))"

text \<open>
  A segment lasts from its start to the ready button, the continue button or the tick of
  the segment countdown that reaches the segment's duration. \<open>segment_expires i w\<close> says
  that a tick of timer \<open>i\<close> in \<open>w\<close> is such a tick; \<open>in_segment\<close> holds of the events that do not
  end the segment, and \<open>all_in_segment\<close> of a list of events that are run one after another.
\<close>

definition segment_expires :: "nat \<Rightarrow> world \<Rightarrow> bool" where
  "segment_expires i w =
     (case timers w i of None \<Rightarrow> False
      | Some t \<Rightarrow>
          (case callback t of
             ConditionCb lastDay oc \<Rightarrow>
               CONDITION_DURATION_MS \<le> conditionElapsedMs (store w) + 1000
           | DrainCb \<Rightarrow> False
           | DelayVisualCb r \<Rightarrow> False))"

fun in_segment :: "event \<Rightarrow> world \<Rightarrow> bool" where
  "in_segment (StartClick g now) w = False"
| "in_segment ReadyClick w = False"
| "in_segment (ContinueClick now) w = False"
| "in_segment (TimerFire i now now2) w = (\<not> segment_expires i w)"
| "in_segment FishClick w = True"
| "in_segment (LLClick now) w = True"
| "in_segment (DelayFire i) w = True"
| "in_segment (AnimFire a) w = True"
| "in_segment (Hidden now) w = True"
| "in_segment (Visible now) w = True"

fun all_in_segment :: "event list \<Rightarrow> world \<Rightarrow> bool" where
  "all_in_segment [] w = True"
| "all_in_segment (ev # evs) w = (in_segment ev w \<and> all_in_segment evs (step ev w))"

text \<open>A state in which no choice procedure is in flight and the four flags are clear.\<close>

definition segment_start :: "world \<Rightarrow> bool" where
  "segment_start w \<longleftrightarrow>
     suspended w = [] \<and> microtasks w = []
     \<and> \<not> isAnimating (store w) \<and> \<not> isWaitingDelay (store w)
     \<and> \<not> isDead (store w) \<and> \<not> choicesDisabled (store w)"

text \<open>
  The invariant of a segment: either nothing is suspended and the engine is idle, or one
  procedure is suspended at the Promise that game over would settle, with the flag of its
  stage set.
\<close>

fun proc_ok :: "state \<Rightarrow> awaiting \<times> cont \<Rightarrow> bool" where
  "proc_ok s (AwaitAnim n, k) = (isAnimating s \<and> \<not> isWaitingDelay s \<and> \<not> is_delay_cont k)"
| "proc_ok s (AwaitDelay d, LLAfterDelay ph dl eb) =
     (isWaitingDelay s \<and> \<not> isAnimating s \<and> ph = phase s)"
| "proc_ok s (AwaitDelay d, FishAfterAnim ph eb) = False"
| "proc_ok s (AwaitDelay d, LLAfterAnim ph dl eb) = False"

definition idle_ok :: "world \<Rightarrow> bool" where
  "idle_ok w \<longleftrightarrow>
     suspended w = [] \<and> \<not> isAnimating (store w) \<and> \<not> isWaitingDelay (store w)
     \<and> (choicesDisabled (store w) \<longleftrightarrow> isDead (store w))"

definition busy_ok :: "world \<Rightarrow> awaiting \<times> cont \<Rightarrow> bool" where
  "busy_ok w p \<longleftrightarrow>
     suspended w = [p] \<and> in_flight w (fst p) \<and> \<not> isDead (store w)
     \<and> choicesDisabled (store w) \<and> proc_ok (store w) p"

definition seg_inv :: "world \<Rightarrow> bool" where
  "seg_inv w \<longleftrightarrow> microtasks w = [] \<and> (idle_ok w \<or> (\<exists>p. busy_ok w p))"


section \<open>Basic facts\<close>

lemmas config_defs = CONDITION_DURATION_MS_def DAYS_PER_CONDITION_def STARTING_ENERGY_def
  MAX_ENERGY_def SMALLER_SOONER_REWARD_def INITIAL_DELAY_MS_def DELAY_STEP_MS_def
  MIN_DELAY_MS_def EXPOSURE_REWARD_def EXPOSURE_MIN_FISH_def EXPOSURE_MIN_LL_def
  EXPOSURE_DRAIN_INTERVAL_MS_def

lemmas model_defs = run_def step_def task_def run_microtasks_def startExposure_def
  startCondition_def assignGroup_def resetForNewPhase_def stopAllTimers_def stop_entry_def
  stop_def cancel_def settle_def upd_timer_def upd_delay_def createTimer_def createDelay_def
  startDrain_def startConditionTimer_def updateExposureStatus_def handleLLChoice_def
  handleFishChoice_def choice_rejected_def setState_def new_timer_def new_delay_def
  playEatingAnimation_def initial_world_def initialState_def prefix_of_def delay_cancel_def
  delay_expire_def resolve_def delay_fire_def anim_fire_def interruptAnimation_def
  recordTrial_def adjustDelay_def nextCondition_def startConditionSequence_def endGame_def
  tick_def run_callback_def drain_callback_def triggerGameOver_def stopDrain_def
  timeout_fired_def tick_rearm_def timer_stop_def

lemma store_setState [simp]: "store (setState f w) = f (store w)"
  by (simp add: setState_def)

text \<open>
  Frame lemmas: the fields each operation leaves as they are. Every later proof rests on
  them, so that no proof has to unfold an operation it does not care about.
\<close>

lemma setState_frame [simp]:
  "trials (setState g w) = trials w"
  "drainTimer (setState g w) = drainTimer w"
  "conditionCountdown (setState g w) = conditionCountdown w"
  "activeDelay (setState g w) = activeDelay w"
  "delayCountdownTimer (setState g w) = delayCountdownTimer w"
  "timerId (setState g w) = timerId w"
  "activeTimers (setState g w) = activeTimers w"
  "timers (setState g w) = timers w"
  "delays (setState g w) = delays w"
  "animCleanup (setState g w) = animCleanup w"
  "animTimeouts (setState g w) = animTimeouts w"
  "animIds (setState g w) = animIds w"
  "suspended (setState g w) = suspended w"
  "microtasks (setState g w) = microtasks w"
  "screen (setState g w) = screen w"
  "btnReadyDisabled (setState g w) = btnReadyDisabled w"
  "continueTarget (setState g w) = continueTarget w"
  "gameOverShown (setState g w) = gameOverShown w"
  by (simp_all add: setState_def)

lemma upd_timer_frame [simp]:
  "store (upd_timer i f w) = store w"
  "trials (upd_timer i f w) = trials w"
  "drainTimer (upd_timer i f w) = drainTimer w"
  "conditionCountdown (upd_timer i f w) = conditionCountdown w"
  "activeDelay (upd_timer i f w) = activeDelay w"
  "delayCountdownTimer (upd_timer i f w) = delayCountdownTimer w"
  "timerId (upd_timer i f w) = timerId w"
  "activeTimers (upd_timer i f w) = activeTimers w"
  "delays (upd_timer i f w) = delays w"
  "animCleanup (upd_timer i f w) = animCleanup w"
  "animTimeouts (upd_timer i f w) = animTimeouts w"
  "animIds (upd_timer i f w) = animIds w"
  "suspended (upd_timer i f w) = suspended w"
  "microtasks (upd_timer i f w) = microtasks w"
  "screen (upd_timer i f w) = screen w"
  "btnReadyDisabled (upd_timer i f w) = btnReadyDisabled w"
  "continueTarget (upd_timer i f w) = continueTarget w"
  "gameOverShown (upd_timer i f w) = gameOverShown w"
  by (simp_all add: upd_timer_def split: option.splits)

lemma upd_delay_frame [simp]:
  "store (upd_delay i f w) = store w"
  "trials (upd_delay i f w) = trials w"
  "drainTimer (upd_delay i f w) = drainTimer w"
  "conditionCountdown (upd_delay i f w) = conditionCountdown w"
  "activeDelay (upd_delay i f w) = activeDelay w"
  "delayCountdownTimer (upd_delay i f w) = delayCountdownTimer w"
  "timerId (upd_delay i f w) = timerId w"
  "activeTimers (upd_delay i f w) = activeTimers w"
  "timers (upd_delay i f w) = timers w"
  "animCleanup (upd_delay i f w) = animCleanup w"
  "animTimeouts (upd_delay i f w) = animTimeouts w"
  "animIds (upd_delay i f w) = animIds w"
  "suspended (upd_delay i f w) = suspended w"
  "microtasks (upd_delay i f w) = microtasks w"
  "screen (upd_delay i f w) = screen w"
  "btnReadyDisabled (upd_delay i f w) = btnReadyDisabled w"
  "continueTarget (upd_delay i f w) = continueTarget w"
  "gameOverShown (upd_delay i f w) = gameOverShown w"
  by (simp_all add: upd_delay_def split: option.splits)

lemma settle_frame [simp]:
  "store (settle a v w) = store w"
  "trials (settle a v w) = trials w"
  "drainTimer (settle a v w) = drainTimer w"
  "conditionCountdown (settle a v w) = conditionCountdown w"
  "activeDelay (settle a v w) = activeDelay w"
  "delayCountdownTimer (settle a v w) = delayCountdownTimer w"
  "timerId (settle a v w) = timerId w"
  "activeTimers (settle a v w) = activeTimers w"
  "timers (settle a v w) = timers w"
  "delays (settle a v w) = delays w"
  "animCleanup (settle a v w) = animCleanup w"
  "animTimeouts (settle a v w) = animTimeouts w"
  "animIds (settle a v w) = animIds w"
  "screen (settle a v w) = screen w"
  "btnReadyDisabled (settle a v w) = btnReadyDisabled w"
  "continueTarget (settle a v w) = continueTarget w"
  "gameOverShown (settle a v w) = gameOverShown w"
  by (simp_all add: settle_def)

lemma createTimer_frame [simp]:
  "store (snd (createTimer cb n now w)) = store w"
  "trials (snd (createTimer cb n now w)) = trials w"
  "drainTimer (snd (createTimer cb n now w)) = drainTimer w"
  "conditionCountdown (snd (createTimer cb n now w)) = conditionCountdown w"
  "activeDelay (snd (createTimer cb n now w)) = activeDelay w"
  "delayCountdownTimer (snd (createTimer cb n now w)) = delayCountdownTimer w"
  "delays (snd (createTimer cb n now w)) = delays w"
  "animCleanup (snd (createTimer cb n now w)) = animCleanup w"
  "animTimeouts (snd (createTimer cb n now w)) = animTimeouts w"
  "animIds (snd (createTimer cb n now w)) = animIds w"
  "suspended (snd (createTimer cb n now w)) = suspended w"
  "microtasks (snd (createTimer cb n now w)) = microtasks w"
  "screen (snd (createTimer cb n now w)) = screen w"
  "btnReadyDisabled (snd (createTimer cb n now w)) = btnReadyDisabled w"
  "continueTarget (snd (createTimer cb n now w)) = continueTarget w"
  "gameOverShown (snd (createTimer cb n now w)) = gameOverShown w"
  by (simp_all add: createTimer_def Let_def)

lemma createDelay_frame [simp]:
  "store (snd (createDelay n now w)) = store w"
  "trials (snd (createDelay n now w)) = trials w"
  "drainTimer (snd (createDelay n now w)) = drainTimer w"
  "conditionCountdown (snd (createDelay n now w)) = conditionCountdown w"
  "activeDelay (snd (createDelay n now w)) = activeDelay w"
  "delayCountdownTimer (snd (createDelay n now w)) = delayCountdownTimer w"
  "timers (snd (createDelay n now w)) = timers w"
  "animCleanup (snd (createDelay n now w)) = animCleanup w"
  "animTimeouts (snd (createDelay n now w)) = animTimeouts w"
  "animIds (snd (createDelay n now w)) = animIds w"
  "suspended (snd (createDelay n now w)) = suspended w"
  "microtasks (snd (createDelay n now w)) = microtasks w"
  "screen (snd (createDelay n now w)) = screen w"
  "btnReadyDisabled (snd (createDelay n now w)) = btnReadyDisabled w"
  "continueTarget (snd (createDelay n now w)) = continueTarget w"
  "gameOverShown (snd (createDelay n now w)) = gameOverShown w"
  by (simp_all add: createDelay_def Let_def)

lemma playEatingAnimation_frame [simp]:
  "store (snd (playEatingAnimation el w)) = store w"
  "trials (snd (playEatingAnimation el w)) = trials w"
  "drainTimer (snd (playEatingAnimation el w)) = drainTimer w"
  "conditionCountdown (snd (playEatingAnimation el w)) = conditionCountdown w"
  "activeDelay (snd (playEatingAnimation el w)) = activeDelay w"
  "delayCountdownTimer (snd (playEatingAnimation el w)) = delayCountdownTimer w"
  "timerId (snd (playEatingAnimation el w)) = timerId w"
  "activeTimers (snd (playEatingAnimation el w)) = activeTimers w"
  "timers (snd (playEatingAnimation el w)) = timers w"
  "delays (snd (playEatingAnimation el w)) = delays w"
  "suspended (snd (playEatingAnimation el w)) = suspended w"
  "microtasks (snd (playEatingAnimation el w)) = microtasks w"
  "screen (snd (playEatingAnimation el w)) = screen w"
  "btnReadyDisabled (snd (playEatingAnimation el w)) = btnReadyDisabled w"
  "continueTarget (snd (playEatingAnimation el w)) = continueTarget w"
  "gameOverShown (snd (playEatingAnimation el w)) = gameOverShown w"
  by (simp_all add: playEatingAnimation_def Let_def)

lemma recordTrial_frame [simp]:
  "store (recordTrial c d p e f w) = store w"
  "drainTimer (recordTrial c d p e f w) = drainTimer w"
  "conditionCountdown (recordTrial c d p e f w) = conditionCountdown w"
  "activeDelay (recordTrial c d p e f w) = activeDelay w"
  "delayCountdownTimer (recordTrial c d p e f w) = delayCountdownTimer w"
  "timerId (recordTrial c d p e f w) = timerId w"
  "activeTimers (recordTrial c d p e f w) = activeTimers w"
  "timers (recordTrial c d p e f w) = timers w"
  "delays (recordTrial c d p e f w) = delays w"
  "animCleanup (recordTrial c d p e f w) = animCleanup w"
  "animTimeouts (recordTrial c d p e f w) = animTimeouts w"
  "animIds (recordTrial c d p e f w) = animIds w"
  "suspended (recordTrial c d p e f w) = suspended w"
  "microtasks (recordTrial c d p e f w) = microtasks w"
  "screen (recordTrial c d p e f w) = screen w"
  "btnReadyDisabled (recordTrial c d p e f w) = btnReadyDisabled w"
  "continueTarget (recordTrial c d p e f w) = continueTarget w"
  "gameOverShown (recordTrial c d p e f w) = gameOverShown w"
  by (simp_all add: recordTrial_def)

lemma updateExposureStatus_frame [simp]:
  "store (updateExposureStatus w) = store w"
  "trials (updateExposureStatus w) = trials w"
  "drainTimer (updateExposureStatus w) = drainTimer w"
  "conditionCountdown (updateExposureStatus w) = conditionCountdown w"
  "activeDelay (updateExposureStatus w) = activeDelay w"
  "delayCountdownTimer (updateExposureStatus w) = delayCountdownTimer w"
  "timerId (updateExposureStatus w) = timerId w"
  "activeTimers (updateExposureStatus w) = activeTimers w"
  "timers (updateExposureStatus w) = timers w"
  "delays (updateExposureStatus w) = delays w"
  "animCleanup (updateExposureStatus w) = animCleanup w"
  "animTimeouts (updateExposureStatus w) = animTimeouts w"
  "animIds (updateExposureStatus w) = animIds w"
  "suspended (updateExposureStatus w) = suspended w"
  "microtasks (updateExposureStatus w) = microtasks w"
  "screen (updateExposureStatus w) = screen w"
  "continueTarget (updateExposureStatus w) = continueTarget w"
  "gameOverShown (updateExposureStatus w) = gameOverShown w"
  by (simp_all add: updateExposureStatus_def Let_def)

lemma stop_frame [simp]:
  "store (stop i w) = store w"
  "trials (stop i w) = trials w"
  "drainTimer (stop i w) = drainTimer w"
  "conditionCountdown (stop i w) = conditionCountdown w"
  "activeDelay (stop i w) = activeDelay w"
  "delayCountdownTimer (stop i w) = delayCountdownTimer w"
  "timerId (stop i w) = timerId w"
  "delays (stop i w) = delays w"
  "animCleanup (stop i w) = animCleanup w"
  "animTimeouts (stop i w) = animTimeouts w"
  "animIds (stop i w) = animIds w"
  "suspended (stop i w) = suspended w"
  "microtasks (stop i w) = microtasks w"
  "screen (stop i w) = screen w"
  "btnReadyDisabled (stop i w) = btnReadyDisabled w"
  "continueTarget (stop i w) = continueTarget w"
  "gameOverShown (stop i w) = gameOverShown w"
  by (simp_all add: stop_def)

lemma cancel_frame [simp]:
  "store (cancel i w) = store w"
  "trials (cancel i w) = trials w"
  "drainTimer (cancel i w) = drainTimer w"
  "conditionCountdown (cancel i w) = conditionCountdown w"
  "activeDelay (cancel i w) = activeDelay w"
  "delayCountdownTimer (cancel i w) = delayCountdownTimer w"
  "timerId (cancel i w) = timerId w"
  "timers (cancel i w) = timers w"
  "animCleanup (cancel i w) = animCleanup w"
  "animTimeouts (cancel i w) = animTimeouts w"
  "animIds (cancel i w) = animIds w"
  "screen (cancel i w) = screen w"
  "btnReadyDisabled (cancel i w) = btnReadyDisabled w"
  "continueTarget (cancel i w) = continueTarget w"
  "gameOverShown (cancel i w) = gameOverShown w"
  by (simp_all add: cancel_def Let_def split: option.splits)

lemma delay_fire_frame [simp]:
  "store (delay_fire i w) = store w"
  "trials (delay_fire i w) = trials w"
  "drainTimer (delay_fire i w) = drainTimer w"
  "conditionCountdown (delay_fire i w) = conditionCountdown w"
  "activeDelay (delay_fire i w) = activeDelay w"
  "delayCountdownTimer (delay_fire i w) = delayCountdownTimer w"
  "timerId (delay_fire i w) = timerId w"
  "timers (delay_fire i w) = timers w"
  "animCleanup (delay_fire i w) = animCleanup w"
  "animTimeouts (delay_fire i w) = animTimeouts w"
  "animIds (delay_fire i w) = animIds w"
  "screen (delay_fire i w) = screen w"
  "btnReadyDisabled (delay_fire i w) = btnReadyDisabled w"
  "continueTarget (delay_fire i w) = continueTarget w"
  "gameOverShown (delay_fire i w) = gameOverShown w"
  by (simp_all add: delay_fire_def Let_def split: option.splits)

lemma interruptAnimation_frame [simp]:
  "store (interruptAnimation el w) = store w"
  "trials (interruptAnimation el w) = trials w"
  "drainTimer (interruptAnimation el w) = drainTimer w"
  "conditionCountdown (interruptAnimation el w) = conditionCountdown w"
  "activeDelay (interruptAnimation el w) = activeDelay w"
  "delayCountdownTimer (interruptAnimation el w) = delayCountdownTimer w"
  "timerId (interruptAnimation el w) = timerId w"
  "activeTimers (interruptAnimation el w) = activeTimers w"
  "timers (interruptAnimation el w) = timers w"
  "delays (interruptAnimation el w) = delays w"
  "animTimeouts (interruptAnimation el w) = animTimeouts w"
  "animIds (interruptAnimation el w) = animIds w"
  "screen (interruptAnimation el w) = screen w"
  "btnReadyDisabled (interruptAnimation el w) = btnReadyDisabled w"
  "continueTarget (interruptAnimation el w) = continueTarget w"
  "gameOverShown (interruptAnimation el w) = gameOverShown w"
  by (simp_all add: interruptAnimation_def split: option.splits)

lemma anim_fire_frame [simp]:
  "store (anim_fire a w) = store w"
  "trials (anim_fire a w) = trials w"
  "drainTimer (anim_fire a w) = drainTimer w"
  "conditionCountdown (anim_fire a w) = conditionCountdown w"
  "activeDelay (anim_fire a w) = activeDelay w"
  "delayCountdownTimer (anim_fire a w) = delayCountdownTimer w"
  "timerId (anim_fire a w) = timerId w"
  "activeTimers (anim_fire a w) = activeTimers w"
  "timers (anim_fire a w) = timers w"
  "delays (anim_fire a w) = delays w"
  "animIds (anim_fire a w) = animIds w"
  "screen (anim_fire a w) = screen w"
  "btnReadyDisabled (anim_fire a w) = btnReadyDisabled w"
  "continueTarget (anim_fire a w) = continueTarget w"
  "gameOverShown (anim_fire a w) = gameOverShown w"
  by (simp_all add: anim_fire_def Let_def split: option.splits)

lemma pause_entry_frame [simp]:
  "store (pause_entry now w i) = store w"
  "trials (pause_entry now w i) = trials w"
  "drainTimer (pause_entry now w i) = drainTimer w"
  "conditionCountdown (pause_entry now w i) = conditionCountdown w"
  "activeDelay (pause_entry now w i) = activeDelay w"
  "delayCountdownTimer (pause_entry now w i) = delayCountdownTimer w"
  "timerId (pause_entry now w i) = timerId w"
  "activeTimers (pause_entry now w i) = activeTimers w"
  "animCleanup (pause_entry now w i) = animCleanup w"
  "animTimeouts (pause_entry now w i) = animTimeouts w"
  "animIds (pause_entry now w i) = animIds w"
  "suspended (pause_entry now w i) = suspended w"
  "microtasks (pause_entry now w i) = microtasks w"
  "screen (pause_entry now w i) = screen w"
  "btnReadyDisabled (pause_entry now w i) = btnReadyDisabled w"
  "continueTarget (pause_entry now w i) = continueTarget w"
  "gameOverShown (pause_entry now w i) = gameOverShown w"
  by (simp_all add: pause_entry_def)

lemma resume_entry_frame [simp]:
  "store (resume_entry now w i) = store w"
  "trials (resume_entry now w i) = trials w"
  "drainTimer (resume_entry now w i) = drainTimer w"
  "conditionCountdown (resume_entry now w i) = conditionCountdown w"
  "activeDelay (resume_entry now w i) = activeDelay w"
  "delayCountdownTimer (resume_entry now w i) = delayCountdownTimer w"
  "timerId (resume_entry now w i) = timerId w"
  "activeTimers (resume_entry now w i) = activeTimers w"
  "animCleanup (resume_entry now w i) = animCleanup w"
  "animTimeouts (resume_entry now w i) = animTimeouts w"
  "animIds (resume_entry now w i) = animIds w"
  "suspended (resume_entry now w i) = suspended w"
  "microtasks (resume_entry now w i) = microtasks w"
  "screen (resume_entry now w i) = screen w"
  "btnReadyDisabled (resume_entry now w i) = btnReadyDisabled w"
  "continueTarget (resume_entry now w i) = continueTarget w"
  "gameOverShown (resume_entry now w i) = gameOverShown w"
  by (simp_all add: resume_entry_def)

lemma stop_entry_frame [simp]:
  "store (stop_entry w i) = store w"
  "trials (stop_entry w i) = trials w"
  "drainTimer (stop_entry w i) = drainTimer w"
  "conditionCountdown (stop_entry w i) = conditionCountdown w"
  "activeDelay (stop_entry w i) = activeDelay w"
  "delayCountdownTimer (stop_entry w i) = delayCountdownTimer w"
  "timerId (stop_entry w i) = timerId w"
  "animCleanup (stop_entry w i) = animCleanup w"
  "animTimeouts (stop_entry w i) = animTimeouts w"
  "animIds (stop_entry w i) = animIds w"
  "screen (stop_entry w i) = screen w"
  "btnReadyDisabled (stop_entry w i) = btnReadyDisabled w"
  "continueTarget (stop_entry w i) = continueTarget w"
  "gameOverShown (stop_entry w i) = gameOverShown w"
  by (simp_all add: stop_entry_def split: option.splits)

lemma startDrain_frame [simp]:
  "store (startDrain n now w) = store w"
  "trials (startDrain n now w) = trials w"
  "conditionCountdown (startDrain n now w) = conditionCountdown w"
  "activeDelay (startDrain n now w) = activeDelay w"
  "delayCountdownTimer (startDrain n now w) = delayCountdownTimer w"
  "delays (startDrain n now w) = delays w"
  "animCleanup (startDrain n now w) = animCleanup w"
  "animTimeouts (startDrain n now w) = animTimeouts w"
  "animIds (startDrain n now w) = animIds w"
  "suspended (startDrain n now w) = suspended w"
  "microtasks (startDrain n now w) = microtasks w"
  "screen (startDrain n now w) = screen w"
  "btnReadyDisabled (startDrain n now w) = btnReadyDisabled w"
  "continueTarget (startDrain n now w) = continueTarget w"
  "gameOverShown (startDrain n now w) = gameOverShown w"
  by (simp_all add: startDrain_def case_prod_beta)

lemma stopDrain_frame [simp]:
  "store (stopDrain w) = store w"
  "trials (stopDrain w) = trials w"
  "conditionCountdown (stopDrain w) = conditionCountdown w"
  "activeDelay (stopDrain w) = activeDelay w"
  "delayCountdownTimer (stopDrain w) = delayCountdownTimer w"
  "timerId (stopDrain w) = timerId w"
  "delays (stopDrain w) = delays w"
  "animCleanup (stopDrain w) = animCleanup w"
  "animTimeouts (stopDrain w) = animTimeouts w"
  "animIds (stopDrain w) = animIds w"
  "suspended (stopDrain w) = suspended w"
  "microtasks (stopDrain w) = microtasks w"
  "screen (stopDrain w) = screen w"
  "btnReadyDisabled (stopDrain w) = btnReadyDisabled w"
  "continueTarget (stopDrain w) = continueTarget w"
  "gameOverShown (stopDrain w) = gameOverShown w"
  by (simp_all add: stopDrain_def split: option.splits)

lemma startConditionTimer_frame [simp]:
  "store (startConditionTimer oc now w) = store w"
  "trials (startConditionTimer oc now w) = trials w"
  "drainTimer (startConditionTimer oc now w) = drainTimer w"
  "activeDelay (startConditionTimer oc now w) = activeDelay w"
  "delayCountdownTimer (startConditionTimer oc now w) = delayCountdownTimer w"
  "delays (startConditionTimer oc now w) = delays w"
  "animCleanup (startConditionTimer oc now w) = animCleanup w"
  "animTimeouts (startConditionTimer oc now w) = animTimeouts w"
  "animIds (startConditionTimer oc now w) = animIds w"
  "suspended (startConditionTimer oc now w) = suspended w"
  "microtasks (startConditionTimer oc now w) = microtasks w"
  "screen (startConditionTimer oc now w) = screen w"
  "btnReadyDisabled (startConditionTimer oc now w) = btnReadyDisabled w"
  "continueTarget (startConditionTimer oc now w) = continueTarget w"
  "gameOverShown (startConditionTimer oc now w) = gameOverShown w"
  by (simp_all add: startConditionTimer_def case_prod_beta)

lemma adjustDelay_floor:
  "MIN_DELAY_MS \<le> currentDelayMs s \<Longrightarrow> MIN_DELAY_MS \<le> currentDelayMs (adjustDelay d s)"
  by (cases d) (simp_all add: adjustDelay_def Let_def DELAY_STEP_MS_def)

lemma foldl_adjustDelay_floor:
  "MIN_DELAY_MS \<le> currentDelayMs s \<Longrightarrow>
   MIN_DELAY_MS \<le> currentDelayMs (foldl (\<lambda>s d. adjustDelay d s) s ds)"
  by (induction ds arbitrary: s) (simp_all add: adjustDelay_floor)


section \<open>Frame lemmas for the composite operations\<close>

lemma store_foldl_stop_entry [simp]: "store (foldl stop_entry w ids) = store w"
  by (induction ids arbitrary: w) simp_all

lemma trials_foldl_stop_entry [simp]: "trials (foldl stop_entry w ids) = trials w"
  by (induction ids arbitrary: w) simp_all

lemma drainTimer_foldl_stop_entry [simp]: "drainTimer (foldl stop_entry w ids) = drainTimer w"
  by (induction ids arbitrary: w) simp_all

lemma conditionCountdown_foldl_stop_entry [simp]: "conditionCountdown (foldl stop_entry w ids) = conditionCountdown w"
  by (induction ids arbitrary: w) simp_all

lemma activeDelay_foldl_stop_entry [simp]: "activeDelay (foldl stop_entry w ids) = activeDelay w"
  by (induction ids arbitrary: w) simp_all

lemma delayCountdownTimer_foldl_stop_entry [simp]: "delayCountdownTimer (foldl stop_entry w ids) = delayCountdownTimer w"
  by (induction ids arbitrary: w) simp_all

lemma timerId_foldl_stop_entry [simp]: "timerId (foldl stop_entry w ids) = timerId w"
  by (induction ids arbitrary: w) simp_all

lemma animCleanup_foldl_stop_entry [simp]: "animCleanup (foldl stop_entry w ids) = animCleanup w"
  by (induction ids arbitrary: w) simp_all

lemma animTimeouts_foldl_stop_entry [simp]: "animTimeouts (foldl stop_entry w ids) = animTimeouts w"
  by (induction ids arbitrary: w) simp_all

lemma animIds_foldl_stop_entry [simp]: "animIds (foldl stop_entry w ids) = animIds w"
  by (induction ids arbitrary: w) simp_all

lemma screen_foldl_stop_entry [simp]: "screen (foldl stop_entry w ids) = screen w"
  by (induction ids arbitrary: w) simp_all

lemma btnReadyDisabled_foldl_stop_entry [simp]: "btnReadyDisabled (foldl stop_entry w ids) = btnReadyDisabled w"
  by (induction ids arbitrary: w) simp_all

lemma continueTarget_foldl_stop_entry [simp]: "continueTarget (foldl stop_entry w ids) = continueTarget w"
  by (induction ids arbitrary: w) simp_all

lemma gameOverShown_foldl_stop_entry [simp]: "gameOverShown (foldl stop_entry w ids) = gameOverShown w"
  by (induction ids arbitrary: w) simp_all

lemma stopAllTimers_frame [simp]:
  "store (stopAllTimers w) = store w"
  "trials (stopAllTimers w) = trials w"
  "drainTimer (stopAllTimers w) = drainTimer w"
  "conditionCountdown (stopAllTimers w) = conditionCountdown w"
  "activeDelay (stopAllTimers w) = activeDelay w"
  "delayCountdownTimer (stopAllTimers w) = delayCountdownTimer w"
  "timerId (stopAllTimers w) = timerId w"
  "animCleanup (stopAllTimers w) = animCleanup w"
  "animTimeouts (stopAllTimers w) = animTimeouts w"
  "animIds (stopAllTimers w) = animIds w"
  "screen (stopAllTimers w) = screen w"
  "btnReadyDisabled (stopAllTimers w) = btnReadyDisabled w"
  "continueTarget (stopAllTimers w) = continueTarget w"
  "gameOverShown (stopAllTimers w) = gameOverShown w"
  by (simp_all add: stopAllTimers_def)

lemma store_foldl_pause_entry [simp]: "store (foldl (pause_entry now) w ids) = store w"
  by (induction ids arbitrary: w) simp_all

lemma trials_foldl_pause_entry [simp]: "trials (foldl (pause_entry now) w ids) = trials w"
  by (induction ids arbitrary: w) simp_all

lemma drainTimer_foldl_pause_entry [simp]: "drainTimer (foldl (pause_entry now) w ids) = drainTimer w"
  by (induction ids arbitrary: w) simp_all

lemma conditionCountdown_foldl_pause_entry [simp]: "conditionCountdown (foldl (pause_entry now) w ids) = conditionCountdown w"
  by (induction ids arbitrary: w) simp_all

lemma activeDelay_foldl_pause_entry [simp]: "activeDelay (foldl (pause_entry now) w ids) = activeDelay w"
  by (induction ids arbitrary: w) simp_all

lemma delayCountdownTimer_foldl_pause_entry [simp]: "delayCountdownTimer (foldl (pause_entry now) w ids) = delayCountdownTimer w"
  by (induction ids arbitrary: w) simp_all

lemma timerId_foldl_pause_entry [simp]: "timerId (foldl (pause_entry now) w ids) = timerId w"
  by (induction ids arbitrary: w) simp_all

lemma activeTimers_foldl_pause_entry [simp]: "activeTimers (foldl (pause_entry now) w ids) = activeTimers w"
  by (induction ids arbitrary: w) simp_all

lemma animCleanup_foldl_pause_entry [simp]: "animCleanup (foldl (pause_entry now) w ids) = animCleanup w"
  by (induction ids arbitrary: w) simp_all

lemma animTimeouts_foldl_pause_entry [simp]: "animTimeouts (foldl (pause_entry now) w ids) = animTimeouts w"
  by (induction ids arbitrary: w) simp_all

lemma animIds_foldl_pause_entry [simp]: "animIds (foldl (pause_entry now) w ids) = animIds w"
  by (induction ids arbitrary: w) simp_all

lemma suspended_foldl_pause_entry [simp]: "suspended (foldl (pause_entry now) w ids) = suspended w"
  by (induction ids arbitrary: w) simp_all

lemma microtasks_foldl_pause_entry [simp]: "microtasks (foldl (pause_entry now) w ids) = microtasks w"
  by (induction ids arbitrary: w) simp_all

lemma screen_foldl_pause_entry [simp]: "screen (foldl (pause_entry now) w ids) = screen w"
  by (induction ids arbitrary: w) simp_all

lemma btnReadyDisabled_foldl_pause_entry [simp]: "btnReadyDisabled (foldl (pause_entry now) w ids) = btnReadyDisabled w"
  by (induction ids arbitrary: w) simp_all

lemma continueTarget_foldl_pause_entry [simp]: "continueTarget (foldl (pause_entry now) w ids) = continueTarget w"
  by (induction ids arbitrary: w) simp_all

lemma gameOverShown_foldl_pause_entry [simp]: "gameOverShown (foldl (pause_entry now) w ids) = gameOverShown w"
  by (induction ids arbitrary: w) simp_all

lemma store_foldl_resume_entry [simp]: "store (foldl (resume_entry now) w ids) = store w"
  by (induction ids arbitrary: w) simp_all

lemma trials_foldl_resume_entry [simp]: "trials (foldl (resume_entry now) w ids) = trials w"
  by (induction ids arbitrary: w) simp_all

lemma drainTimer_foldl_resume_entry [simp]: "drainTimer (foldl (resume_entry now) w ids) = drainTimer w"
  by (induction ids arbitrary: w) simp_all

lemma conditionCountdown_foldl_resume_entry [simp]: "conditionCountdown (foldl (resume_entry now) w ids) = conditionCountdown w"
  by (induction ids arbitrary: w) simp_all

lemma activeDelay_foldl_resume_entry [simp]: "activeDelay (foldl (resume_entry now) w ids) = activeDelay w"
  by (induction ids arbitrary: w) simp_all

lemma delayCountdownTimer_foldl_resume_entry [simp]: "delayCountdownTimer (foldl (resume_entry now) w ids) = delayCountdownTimer w"
  by (induction ids arbitrary: w) simp_all

lemma timerId_foldl_resume_entry [simp]: "timerId (foldl (resume_entry now) w ids) = timerId w"
  by (induction ids arbitrary: w) simp_all

lemma activeTimers_foldl_resume_entry [simp]: "activeTimers (foldl (resume_entry now) w ids) = activeTimers w"
  by (induction ids arbitrary: w) simp_all

lemma animCleanup_foldl_resume_entry [simp]: "animCleanup (foldl (resume_entry now) w ids) = animCleanup w"
  by (induction ids arbitrary: w) simp_all

lemma animTimeouts_foldl_resume_entry [simp]: "animTimeouts (foldl (resume_entry now) w ids) = animTimeouts w"
  by (induction ids arbitrary: w) simp_all

lemma animIds_foldl_resume_entry [simp]: "animIds (foldl (resume_entry now) w ids) = animIds w"
  by (induction ids arbitrary: w) simp_all

lemma suspended_foldl_resume_entry [simp]: "suspended (foldl (resume_entry now) w ids) = suspended w"
  by (induction ids arbitrary: w) simp_all

lemma microtasks_foldl_resume_entry [simp]: "microtasks (foldl (resume_entry now) w ids) = microtasks w"
  by (induction ids arbitrary: w) simp_all

lemma screen_foldl_resume_entry [simp]: "screen (foldl (resume_entry now) w ids) = screen w"
  by (induction ids arbitrary: w) simp_all

lemma btnReadyDisabled_foldl_resume_entry [simp]: "btnReadyDisabled (foldl (resume_entry now) w ids) = btnReadyDisabled w"
  by (induction ids arbitrary: w) simp_all

lemma continueTarget_foldl_resume_entry [simp]: "continueTarget (foldl (resume_entry now) w ids) = continueTarget w"
  by (induction ids arbitrary: w) simp_all

lemma gameOverShown_foldl_resume_entry [simp]: "gameOverShown (foldl (resume_entry now) w ids) = gameOverShown w"
  by (induction ids arbitrary: w) simp_all

lemma pauseAllTimers_frame [simp]:
  "store (pauseAllTimers now w) = store w"
  "trials (pauseAllTimers now w) = trials w"
  "drainTimer (pauseAllTimers now w) = drainTimer w"
  "conditionCountdown (pauseAllTimers now w) = conditionCountdown w"
  "activeDelay (pauseAllTimers now w) = activeDelay w"
  "delayCountdownTimer (pauseAllTimers now w) = delayCountdownTimer w"
  "timerId (pauseAllTimers now w) = timerId w"
  "activeTimers (pauseAllTimers now w) = activeTimers w"
  "animCleanup (pauseAllTimers now w) = animCleanup w"
  "animTimeouts (pauseAllTimers now w) = animTimeouts w"
  "animIds (pauseAllTimers now w) = animIds w"
  "suspended (pauseAllTimers now w) = suspended w"
  "microtasks (pauseAllTimers now w) = microtasks w"
  "screen (pauseAllTimers now w) = screen w"
  "btnReadyDisabled (pauseAllTimers now w) = btnReadyDisabled w"
  "continueTarget (pauseAllTimers now w) = continueTarget w"
  "gameOverShown (pauseAllTimers now w) = gameOverShown w"
  by (simp_all add: pauseAllTimers_def)

lemma resumeAllTimers_frame [simp]:
  "store (resumeAllTimers now w) = store w"
  "trials (resumeAllTimers now w) = trials w"
  "drainTimer (resumeAllTimers now w) = drainTimer w"
  "conditionCountdown (resumeAllTimers now w) = conditionCountdown w"
  "activeDelay (resumeAllTimers now w) = activeDelay w"
  "delayCountdownTimer (resumeAllTimers now w) = delayCountdownTimer w"
  "timerId (resumeAllTimers now w) = timerId w"
  "activeTimers (resumeAllTimers now w) = activeTimers w"
  "animCleanup (resumeAllTimers now w) = animCleanup w"
  "animTimeouts (resumeAllTimers now w) = animTimeouts w"
  "animIds (resumeAllTimers now w) = animIds w"
  "suspended (resumeAllTimers now w) = suspended w"
  "microtasks (resumeAllTimers now w) = microtasks w"
  "screen (resumeAllTimers now w) = screen w"
  "btnReadyDisabled (resumeAllTimers now w) = btnReadyDisabled w"
  "continueTarget (resumeAllTimers now w) = continueTarget w"
  "gameOverShown (resumeAllTimers now w) = gameOverShown w"
  by (simp_all add: resumeAllTimers_def)

lemma triggerGameOver_frame [simp]:
  "trials (triggerGameOver w) = trials w"
  "conditionCountdown (triggerGameOver w) = conditionCountdown w"
  "timerId (triggerGameOver w) = timerId w"
  "animTimeouts (triggerGameOver w) = animTimeouts w"
  "animIds (triggerGameOver w) = animIds w"
  "screen (triggerGameOver w) = screen w"
  "btnReadyDisabled (triggerGameOver w) = btnReadyDisabled w"
  "continueTarget (triggerGameOver w) = continueTarget w"
  by (simp_all add: triggerGameOver_def Let_def split: option.splits)

lemma drain_callback_frame [simp]:
  "trials (drain_callback w) = trials w"
  "conditionCountdown (drain_callback w) = conditionCountdown w"
  "timerId (drain_callback w) = timerId w"
  "animTimeouts (drain_callback w) = animTimeouts w"
  "animIds (drain_callback w) = animIds w"
  "screen (drain_callback w) = screen w"
  "btnReadyDisabled (drain_callback w) = btnReadyDisabled w"
  "continueTarget (drain_callback w) = continueTarget w"
  by (simp_all add: drain_callback_def Let_def)

lemma resetForNewPhase_frame [simp]:
  "trials (resetForNewPhase w) = trials w"
  "timerId (resetForNewPhase w) = timerId w"
  "animCleanup (resetForNewPhase w) = animCleanup w"
  "animTimeouts (resetForNewPhase w) = animTimeouts w"
  "animIds (resetForNewPhase w) = animIds w"
  "screen (resetForNewPhase w) = screen w"
  "btnReadyDisabled (resetForNewPhase w) = btnReadyDisabled w"
  "continueTarget (resetForNewPhase w) = continueTarget w"
  "gameOverShown (resetForNewPhase w) = gameOverShown w"
  by (simp_all add: resetForNewPhase_def Let_def)

lemma update_days_left_frame [simp]:
  "trials (update_days_left i ld oc r w) = trials w"
  "drainTimer (update_days_left i ld oc r w) = drainTimer w"
  "conditionCountdown (update_days_left i ld oc r w) = conditionCountdown w"
  "activeDelay (update_days_left i ld oc r w) = activeDelay w"
  "delayCountdownTimer (update_days_left i ld oc r w) = delayCountdownTimer w"
  "timerId (update_days_left i ld oc r w) = timerId w"
  "activeTimers (update_days_left i ld oc r w) = activeTimers w"
  "delays (update_days_left i ld oc r w) = delays w"
  "animCleanup (update_days_left i ld oc r w) = animCleanup w"
  "animTimeouts (update_days_left i ld oc r w) = animTimeouts w"
  "animIds (update_days_left i ld oc r w) = animIds w"
  "suspended (update_days_left i ld oc r w) = suspended w"
  "microtasks (update_days_left i ld oc r w) = microtasks w"
  "screen (update_days_left i ld oc r w) = screen w"
  "btnReadyDisabled (update_days_left i ld oc r w) = btnReadyDisabled w"
  "continueTarget (update_days_left i ld oc r w) = continueTarget w"
  "gameOverShown (update_days_left i ld oc r w) = gameOverShown w"
  by (simp_all add: update_days_left_def Let_def)

lemma endGame_frame [simp]:
  "trials (endGame w) = trials w"
  "drainTimer (endGame w) = drainTimer w"
  "conditionCountdown (endGame w) = conditionCountdown w"
  "activeDelay (endGame w) = activeDelay w"
  "delayCountdownTimer (endGame w) = delayCountdownTimer w"
  "timerId (endGame w) = timerId w"
  "animCleanup (endGame w) = animCleanup w"
  "animTimeouts (endGame w) = animTimeouts w"
  "animIds (endGame w) = animIds w"
  "btnReadyDisabled (endGame w) = btnReadyDisabled w"
  "continueTarget (endGame w) = continueTarget w"
  "gameOverShown (endGame w) = gameOverShown w"
  by (simp_all add: endGame_def)

lemma nextCondition_frame [simp]:
  "trials (fst (nextCondition w)) = trials w"
  "drainTimer (fst (nextCondition w)) = drainTimer w"
  "conditionCountdown (fst (nextCondition w)) = conditionCountdown w"
  "activeDelay (fst (nextCondition w)) = activeDelay w"
  "delayCountdownTimer (fst (nextCondition w)) = delayCountdownTimer w"
  "timerId (fst (nextCondition w)) = timerId w"
  "animCleanup (fst (nextCondition w)) = animCleanup w"
  "animTimeouts (fst (nextCondition w)) = animTimeouts w"
  "animIds (fst (nextCondition w)) = animIds w"
  "btnReadyDisabled (fst (nextCondition w)) = btnReadyDisabled w"
  "gameOverShown (fst (nextCondition w)) = gameOverShown w"
  by (simp_all add: nextCondition_def Let_def split: option.splits)

lemma startConditionSequence_frame [simp]:
  "trials (fst (startConditionSequence w)) = trials w"
  "drainTimer (fst (startConditionSequence w)) = drainTimer w"
  "conditionCountdown (fst (startConditionSequence w)) = conditionCountdown w"
  "activeDelay (fst (startConditionSequence w)) = activeDelay w"
  "delayCountdownTimer (fst (startConditionSequence w)) = delayCountdownTimer w"
  "timerId (fst (startConditionSequence w)) = timerId w"
  "animCleanup (fst (startConditionSequence w)) = animCleanup w"
  "animTimeouts (fst (startConditionSequence w)) = animTimeouts w"
  "animIds (fst (startConditionSequence w)) = animIds w"
  "btnReadyDisabled (fst (startConditionSequence w)) = btnReadyDisabled w"
  "gameOverShown (fst (startConditionSequence w)) = gameOverShown w"
  by (simp_all add: startConditionSequence_def)

lemma trials_run_on_complete [simp]: "trials (fst (run_on_complete oc w)) = trials w"
  by (cases oc) simp_all

lemma drainTimer_run_on_complete [simp]: "drainTimer (fst (run_on_complete oc w)) = drainTimer w"
  by (cases oc) simp_all

lemma conditionCountdown_run_on_complete [simp]: "conditionCountdown (fst (run_on_complete oc w)) = conditionCountdown w"
  by (cases oc) simp_all

lemma activeDelay_run_on_complete [simp]: "activeDelay (fst (run_on_complete oc w)) = activeDelay w"
  by (cases oc) simp_all

lemma delayCountdownTimer_run_on_complete [simp]: "delayCountdownTimer (fst (run_on_complete oc w)) = delayCountdownTimer w"
  by (cases oc) simp_all

lemma timerId_run_on_complete [simp]: "timerId (fst (run_on_complete oc w)) = timerId w"
  by (cases oc) simp_all

lemma animCleanup_run_on_complete [simp]: "animCleanup (fst (run_on_complete oc w)) = animCleanup w"
  by (cases oc) simp_all

lemma animTimeouts_run_on_complete [simp]: "animTimeouts (fst (run_on_complete oc w)) = animTimeouts w"
  by (cases oc) simp_all

lemma animIds_run_on_complete [simp]: "animIds (fst (run_on_complete oc w)) = animIds w"
  by (cases oc) simp_all

lemma btnReadyDisabled_run_on_complete [simp]: "btnReadyDisabled (fst (run_on_complete oc w)) = btnReadyDisabled w"
  by (cases oc) simp_all

lemma gameOverShown_run_on_complete [simp]: "gameOverShown (fst (run_on_complete oc w)) = gameOverShown w"
  by (cases oc) simp_all

lemma condition_callback_frame [simp]:
  "trials (fst (condition_callback i ld oc w)) = trials w"
  "drainTimer (fst (condition_callback i ld oc w)) = drainTimer w"
  "activeDelay (fst (condition_callback i ld oc w)) = activeDelay w"
  "delayCountdownTimer (fst (condition_callback i ld oc w)) = delayCountdownTimer w"
  "timerId (fst (condition_callback i ld oc w)) = timerId w"
  "animCleanup (fst (condition_callback i ld oc w)) = animCleanup w"
  "animTimeouts (fst (condition_callback i ld oc w)) = animTimeouts w"
  "animIds (fst (condition_callback i ld oc w)) = animIds w"
  "btnReadyDisabled (fst (condition_callback i ld oc w)) = btnReadyDisabled w"
  "gameOverShown (fst (condition_callback i ld oc w)) = gameOverShown w"
  by (simp_all add: condition_callback_def Let_def split: option.splits)

lemma run_callback_frame [simp]:
  "trials (fst (run_callback i cb w)) = trials w"
  "timerId (fst (run_callback i cb w)) = timerId w"
  "animTimeouts (fst (run_callback i cb w)) = animTimeouts w"
  "animIds (fst (run_callback i cb w)) = animIds w"
  "btnReadyDisabled (fst (run_callback i cb w)) = btnReadyDisabled w"
  by (simp_all add: run_callback_def split: callback.splits)

lemma tick_frame [simp]:
  "trials (tick i now now2 w) = trials w"
  "timerId (tick i now now2 w) = timerId w"
  "animTimeouts (tick i now now2 w) = animTimeouts w"
  "animIds (tick i now now2 w) = animIds w"
  "btnReadyDisabled (tick i now now2 w) = btnReadyDisabled w"
  by (simp_all add: tick_def Let_def case_prod_beta split: option.splits)

lemma startExposure_frame [simp]:
  "trials (startExposure now w) = trials w"
  "animCleanup (startExposure now w) = animCleanup w"
  "animTimeouts (startExposure now w) = animTimeouts w"
  "animIds (startExposure now w) = animIds w"
  "continueTarget (startExposure now w) = continueTarget w"
  "gameOverShown (startExposure now w) = gameOverShown w"
  by (simp_all add: startExposure_def Let_def)

lemma startCondition_frame [simp]:
  "trials (startCondition c now w) = trials w"
  "animCleanup (startCondition c now w) = animCleanup w"
  "animTimeouts (startCondition c now w) = animTimeouts w"
  "animIds (startCondition c now w) = animIds w"
  "btnReadyDisabled (startCondition c now w) = btnReadyDisabled w"
  "continueTarget (startCondition c now w) = continueTarget w"
  "gameOverShown (startCondition c now w) = gameOverShown w"
  by (simp_all add: startCondition_def Let_def)

lemma assignGroup_frame [simp]:
  "trials (assignGroup g w) = trials w"
  "drainTimer (assignGroup g w) = drainTimer w"
  "conditionCountdown (assignGroup g w) = conditionCountdown w"
  "activeDelay (assignGroup g w) = activeDelay w"
  "delayCountdownTimer (assignGroup g w) = delayCountdownTimer w"
  "timerId (assignGroup g w) = timerId w"
  "activeTimers (assignGroup g w) = activeTimers w"
  "timers (assignGroup g w) = timers w"
  "delays (assignGroup g w) = delays w"
  "animCleanup (assignGroup g w) = animCleanup w"
  "animTimeouts (assignGroup g w) = animTimeouts w"
  "animIds (assignGroup g w) = animIds w"
  "suspended (assignGroup g w) = suspended w"
  "microtasks (assignGroup g w) = microtasks w"
  "screen (assignGroup g w) = screen w"
  "btnReadyDisabled (assignGroup g w) = btnReadyDisabled w"
  "continueTarget (assignGroup g w) = continueTarget w"
  "gameOverShown (assignGroup g w) = gameOverShown w"
  by (simp_all add: assignGroup_def)


section \<open>The delay staircase\<close>

text \<open>
  C5. \<open>adjustDelay\<close> adds the step on an immediate choice, with no ceiling, and subtracts
  it down to the floor on a delayed choice; from 6000 an immediate choice gives 8000 and
  from 2000 a delayed choice stays at 2000. The two choice procedures, when they resume
  alive and grant their reward, change the delay by exactly that rule.
\<close>

theorem staircase_update_rule:
  "currentDelayMs (adjustDelay Increase s) = currentDelayMs s + DELAY_STEP_MS
   \<and> currentDelayMs (adjustDelay Decrease s) = max MIN_DELAY_MS (currentDelayMs s - DELAY_STEP_MS)
   \<and> currentDelayMs (adjustDelay Increase (s\<lparr>currentDelayMs := 6000\<rparr>)) = 8000
   \<and> currentDelayMs (adjustDelay Decrease (s\<lparr>currentDelayMs := 2000\<rparr>)) = 2000
   \<and> (\<not> isDead (store w) \<longrightarrow>
        currentDelayMs (store (run_cont (FishAfterAnim ph eb) v w))
          = currentDelayMs (store w) + DELAY_STEP_MS
      \<and> currentDelayMs (store (run_cont (LLAfterAnim ph dl eb) v w))
          = max MIN_DELAY_MS (currentDelayMs (store w) - DELAY_STEP_MS))"
  by (simp add: adjustDelay_def Let_def DELAY_STEP_MS_def MIN_DELAY_MS_def)

theorem staircase_update_rule_witness:
  "\<not> isDead (store initial_world)
   \<and> currentDelayMs (store (run_cont (FishAfterAnim Exposure 50) True initial_world)) = 8000
   \<and> currentDelayMs (store (run_cont (LLAfterAnim Exposure 6000 50) True initial_world)) = 4000"
  using staircase_update_rule [of initialState initial_world Exposure 50 True 6000]
  by (simp add: initial_world_def initialState_def DELAY_STEP_MS_def MIN_DELAY_MS_def)


section \<open>The scheduler\<close>

lemma timer_pause_idem: "timer_pause now (timer_pause now t) = timer_pause now t"
  by (simp add: timer_pause_def)

lemma delay_pause_idem: "delay_pause now (delay_pause now d) = delay_pause now d"
  by (simp add: delay_pause_def)

lemma timer_resume_idem: "timer_resume now (timer_resume now t) = timer_resume now t"
  by (simp add: timer_resume_def)

lemma delay_resume_idem: "delay_resume now (delay_resume now d) = delay_resume now d"
  by (simp add: delay_resume_def)

lemma timers_upd_timer:
  "timers (upd_timer j f w) i = (if i = j then map_option f (timers w j) else timers w i)"
  by (simp add: upd_timer_def split: option.splits)

lemma delays_upd_delay:
  "delays (upd_delay j f w) i = (if i = j then map_option f (delays w j) else delays w i)"
  by (simp add: upd_delay_def split: option.splits)

lemma timers_pause_entry:
  "timers (pause_entry now w j) i
     = (if i = j then map_option (timer_pause now) (timers w j) else timers w i)"
  by (simp add: pause_entry_def timers_upd_timer)

lemma delays_pause_entry:
  "delays (pause_entry now w j) i
     = (if i = j then map_option (delay_pause now) (delays w j) else delays w i)"
  by (simp add: pause_entry_def delays_upd_delay)

lemma timers_resume_entry:
  "timers (resume_entry now w j) i
     = (if i = j then map_option (timer_resume now) (timers w j) else timers w i)"
  by (simp add: resume_entry_def timers_upd_timer)

lemma delays_resume_entry:
  "delays (resume_entry now w j) i
     = (if i = j then map_option (delay_resume now) (delays w j) else delays w i)"
  by (simp add: resume_entry_def delays_upd_delay)

text \<open>
  \<open>pauseAllTimers\<close> pauses exactly the registered closures and leaves the registry as it
  is, so \<open>resumeAllTimers\<close> reaches the same closures. An id met twice changes nothing the
  second time.
\<close>

lemma timers_foldl_pause:
  "timers (foldl (pause_entry now) w ids) i =
     (if i \<in> set ids then map_option (timer_pause now) (timers w i) else timers w i)"
  by (induction ids arbitrary: w)
     (auto simp: timers_pause_entry option.map_comp o_def timer_pause_idem)

lemma delays_foldl_pause:
  "delays (foldl (pause_entry now) w ids) i =
     (if i \<in> set ids then map_option (delay_pause now) (delays w i) else delays w i)"
  by (induction ids arbitrary: w)
     (auto simp: delays_pause_entry option.map_comp o_def delay_pause_idem)

lemma timers_foldl_resume:
  "timers (foldl (resume_entry now) w ids) i =
     (if i \<in> set ids then map_option (timer_resume now) (timers w i) else timers w i)"
  by (induction ids arbitrary: w)
     (auto simp: timers_resume_entry option.map_comp o_def timer_resume_idem)

lemma delays_foldl_resume:
  "delays (foldl (resume_entry now) w ids) i =
     (if i \<in> set ids then map_option (delay_resume now) (delays w i) else delays w i)"
  by (induction ids arbitrary: w)
     (auto simp: delays_resume_entry option.map_comp o_def delay_resume_idem)

lemma pause_resume_all:
  "i \<in> set (activeTimers w) \<Longrightarrow>
     timers (resumeAllTimers now' (pauseAllTimers now w)) i
       = map_option (\<lambda>t. timer_resume now' (timer_pause now t)) (timers w i)
   \<and> delays (resumeAllTimers now' (pauseAllTimers now w)) i
       = map_option (\<lambda>d. delay_resume now' (delay_pause now d)) (delays w i)"
  by (simp add: resumeAllTimers_def pauseAllTimers_def timers_foldl_resume timers_foldl_pause
      delays_foldl_resume delays_foldl_pause option.map_comp o_def)

lemma drain_world_eval:
  "timers drain_world (Suc 0) = Some (new_timer DrainCb 3000 0)"
  "activeTimers drain_world = [Suc 0]"
  "store drain_world = initialState"
  "delays drain_world = (\<lambda>i. None)"
  by (simp_all add: drain_world_def createTimer_def initial_world_def Let_def)

text \<open>
  Pause and resume of one closure. Pausing a running timer at \<open>now\<close> clears its timeout and freezes
  \<open>max 0 (expected - now)\<close>, the time left until its expected fire; resuming it after any
  further time \<open>P\<close> arms a timeout of exactly that length and moves the expected fire time
  to that distance from the moment of resume. The same holds for a delay, whose frozen
  remainder is what was left of its duration. A delay of 6000 ms paused 2000 ms after its
  start is re-armed with 4000 ms when resumed 10000 ms later. \<open>pauseAllTimers\<close> followed
  by \<open>resumeAllTimers\<close> does this to every registered timer and delay.
\<close>

theorem pause_resume_keeps_remaining_time:
  "(\<not> paused t \<longrightarrow>
      timeoutHandle (timer_pause now t) = None
    \<and> remainingMs (timer_pause now t) = max 0 (expected t - now)
    \<and> timeoutHandle (timer_resume (now + P) (timer_pause now t)) = Some (max 0 (expected t - now))
    \<and> expected (timer_resume (now + P) (timer_pause now t)) - (now + P) = max 0 (expected t - now))
   \<and> (\<not> dPaused d \<longrightarrow>
      dTimeoutHandle (delay_pause now d) = None
    \<and> dRemainingMs (delay_pause now d) = max 0 (dRemainingMs d - (now - startTime d))
    \<and> dTimeoutHandle (delay_resume (now + P) (delay_pause now d))
        = Some (max 0 (dRemainingMs d - (now - startTime d)))
    \<and> dRemainingMs (delay_resume (now + P) (delay_pause now d))
        = max 0 (dRemainingMs d - (now - startTime d))
    \<and> startTime (delay_resume (now + P) (delay_pause now d)) = now + P)
   \<and> dTimeoutHandle (delay_resume (t0 + 2000 + 10000) (delay_pause (t0 + 2000) (new_delay 6000 t0)))
        = Some 4000
   \<and> (i \<in> set (activeTimers w) \<longrightarrow>
        timers (resumeAllTimers (now + P) (pauseAllTimers now w)) i
          = map_option (\<lambda>t. timer_resume (now + P) (timer_pause now t)) (timers w i)
      \<and> delays (resumeAllTimers (now + P) (pauseAllTimers now w)) i
          = map_option (\<lambda>d. delay_resume (now + P) (delay_pause now d)) (delays w i))"
  using pause_resume_all [of i w "now + P" now]
  by (simp add: timer_pause_def timer_resume_def delay_pause_def delay_resume_def new_delay_def)

theorem pause_resume_keeps_remaining_time_witness:
  "\<not> paused (new_timer DrainCb 3000 0) \<and> \<not> dPaused (new_delay 6000 0)
   \<and> 1 \<in> set (activeTimers drain_world)
   \<and> timeoutHandle (timer_resume 11000 (timer_pause 1000 (new_timer DrainCb 3000 0))) = Some 2000
   \<and> dTimeoutHandle (delay_resume 11000 (delay_pause 1000 (new_delay 6000 0))) = Some 5000
   \<and> map_option timeoutHandle (timers (resumeAllTimers 11000 (pauseAllTimers 1000 drain_world)) 1)
       = Some (Some 2000)"
  using pause_resume_keeps_remaining_time
    [of "new_timer DrainCb 3000 0" 1000 10000 "new_delay 6000 0" 0 1 drain_world]
  by (simp add: drain_world_eval new_timer_def new_delay_def timer_pause_def timer_resume_def
      delay_pause_def delay_resume_def)

text \<open>
  C7. The re-arming at the end of \<open>tick\<close> sets the expected fire time to
  \<open>now + intervalMs - min drift (intervalMs - 1)\<close>, counted from the clock reading of this
  fire, and arms \<open>max 0 (expected - now2)\<close>: the armed delay is never negative, the
  compensation \<open>min drift (intervalMs - 1)\<close> is at most \<open>intervalMs - 1\<close>, so the next
  expected fire is at least one millisecond after this one. In the running program, a
  tick of an unpaused timer whose callback returns normally leaves the timer re-armed in
  this way, with the drift \<open>now - expected\<close> measured before the callback ran.
\<close>

theorem tick_drift_correction:
  "expected (tick_rearm now now2 drift t') = now + intervalMs t' - min drift (intervalMs t' - 1)
   \<and> timeoutHandle (tick_rearm now now2 drift t')
       = Some (max 0 (expected (tick_rearm now now2 drift t') - now2))
   \<and> 0 \<le> max 0 (expected (tick_rearm now now2 drift t') - now2)
   \<and> min drift (intervalMs t' - 1) \<le> intervalMs t' - 1
   \<and> now + 1 \<le> expected (tick_rearm now now2 drift t')
   \<and> (timers w i = Some t \<and> \<not> paused t \<and> run_callback i (callback t) w = (w1, False)
        \<and> timers w1 i = Some t1
      \<longrightarrow> timers (tick i now now2 w) i = Some (tick_rearm now now2 (now - expected t) t1))"
  by (simp add: tick_rearm_def Let_def tick_def timers_upd_timer)

theorem tick_drift_correction_witness:
  "timers drain_world 1 = Some (new_timer DrainCb 3000 0)
   \<and> \<not> paused (new_timer DrainCb 3000 0)
   \<and> run_callback 1 (callback (new_timer DrainCb 3000 0)) drain_world
       = (drain_callback drain_world, False)
   \<and> timers (drain_callback drain_world) 1 = Some (new_timer DrainCb 3000 0)
   \<and> map_option expected (timers (tick 1 3004 3005 drain_world) 1) = Some 6000
   \<and> map_option timeoutHandle (timers (tick 1 3004 3005 drain_world) 1) = Some (Some 2995)"
  using tick_drift_correction
    [of 3004 3005 4 "new_timer DrainCb 3000 0" drain_world 1 "new_timer DrainCb 3000 0"
        "drain_callback drain_world" "new_timer DrainCb 3000 0"]
  by (simp add: drain_world_eval new_timer_def run_callback_def drain_callback_def Let_def
      initialState_def setState_def tick_rearm_def)

lemma resolve_resolve [simp]: "resolve v (resolve u p) = resolve u p"
  by (simp add: resolve_def split: option.splits)

lemma delay_cancel_expire: "delay_cancel (delay_expire d) = delay_expire d"
  by (simp add: delay_cancel_def delay_expire_def)

lemma delay_cancel_cancel: "delay_cancel (delay_cancel d) = delay_cancel d"
  by (simp add: delay_cancel_def)

lemma promise_expire_not_None [simp]: "promise (delay_expire d) \<noteq> None"
  by (cases "promise d") (simp_all add: delay_expire_def resolve_def)

lemma promise_cancel_not_None [simp]: "promise (delay_cancel d) \<noteq> None"
  by (cases "promise d") (simp_all add: delay_cancel_def resolve_def)

lemma cancel_after_fire: "cancel i (delay_fire i w) = delay_fire i w"
  by (cases "delays w i")
     (simp_all add: cancel_def delay_fire_def Let_def delay_cancel_expire settle_def)

lemma cancel_after_cancel: "cancel i (cancel i w) = cancel i w"
  by (cases "delays w i")
     (simp_all add: cancel_def Let_def delay_cancel_cancel settle_def)

text \<open>
  C8. The signal of a delay just created is pending; it is \<open>true\<close> after the delay's
  timeout has run and \<open>false\<close> after \<open>cancel\<close>. \<open>cancel\<close> after the timeout has run, and
  \<open>cancel\<close> after \<open>cancel\<close>, change nothing at all in the program. A settled signal keeps
  its value under \<open>cancel\<close>, under a late run of the timeout, and under pausing and
  resuming.
\<close>

theorem delay_signal_settles_once:
  "signal (fst (createDelay D now w)) (snd (createDelay D now w)) = None
   \<and> signal (fst (createDelay D now w))
        (delay_fire (fst (createDelay D now w)) (snd (createDelay D now w))) = Some True
   \<and> signal (fst (createDelay D now w))
        (cancel (fst (createDelay D now w)) (snd (createDelay D now w))) = Some False
   \<and> cancel i (delay_fire i w) = delay_fire i w
   \<and> cancel i (cancel i w) = cancel i w
   \<and> (signal i w = Some v \<longrightarrow>
        signal i (cancel i w) = Some v \<and> signal i (delay_fire i w) = Some v
      \<and> signal i (pauseAllTimers now w) = Some v \<and> signal i (resumeAllTimers now w) = Some v)"
  apply (intro conjI impI)
  apply (simp_all add: cancel_after_fire cancel_after_cancel)
  apply (auto simp add: signal_def createDelay_def Let_def cancel_def delay_fire_def new_delay_def
      delay_expire_def delay_cancel_def resolve_def pauseAllTimers_def resumeAllTimers_def
      delays_foldl_pause delays_foldl_resume delay_pause_def delay_resume_def
      split: option.splits)
  done

theorem delay_signal_settles_once_witness:
  "signal 1 (delay_fire 1 delay_world) = Some True
   \<and> signal 1 (cancel 1 (delay_fire 1 delay_world)) = Some True
   \<and> signal 1 (pauseAllTimers 5 (delay_fire 1 delay_world)) = Some True"
  using delay_signal_settles_once [of 6000 5 "delay_fire 1 delay_world" 1 True]
  by (simp add: delay_world_def createDelay_def initial_world_def Let_def signal_def delay_fire_def
      new_delay_def delay_expire_def resolve_def settle_def)


section \<open>Suspended procedures and the resume queue\<close>

text \<open>
  Settling a Promise only removes procedures from \<open>suspended\<close>; the operations built on
  it therefore leave a subsequence of what was suspended before.
\<close>

lemma suspended_settle: "suspended (settle a v w) = filter (\<lambda>p. fst p \<noteq> a) (suspended w)"
  by (simp add: settle_def)
lemma microtasks_settle:
  "microtasks (settle a v w) = microtasks w @ map (\<lambda>p. (snd p, v)) (filter (\<lambda>p. fst p = a) (suspended w))"
  by (simp add: settle_def)

lemma subseq_filter_trans: "subseq xs ys \<Longrightarrow> subseq (filter P xs) ys"
  by (meson subseq_filter_left subseq_order.trans)

lemma subseq_settle [simp]: "subseq (suspended w) xs \<Longrightarrow> subseq (suspended (settle a v w)) xs"
  by (simp add: suspended_settle subseq_filter_trans)
lemma subseq_cancel [simp]: "subseq (suspended w) xs \<Longrightarrow> subseq (suspended (cancel i w)) xs"
  by (simp add: cancel_def Let_def split: option.splits)
lemma subseq_delay_fire [simp]: "subseq (suspended w) xs \<Longrightarrow> subseq (suspended (delay_fire i w)) xs"
  by (simp add: delay_fire_def Let_def split: option.splits)
lemma subseq_interruptAnimation [simp]:
  "subseq (suspended w) xs \<Longrightarrow> subseq (suspended (interruptAnimation el w)) xs"
  by (simp add: interruptAnimation_def split: option.splits)
lemma subseq_anim_fire [simp]: "subseq (suspended w) xs \<Longrightarrow> subseq (suspended (anim_fire a w)) xs"
  by (simp add: anim_fire_def Let_def split: option.splits)
lemma subseq_stop_entry [simp]: "subseq (suspended w) xs \<Longrightarrow> subseq (suspended (stop_entry w i)) xs"
  by (simp add: stop_entry_def split: option.splits)
lemma subseq_foldl_stop_entry [simp]:
  "subseq (suspended w) xs \<Longrightarrow> subseq (suspended (foldl stop_entry w ids)) xs"
  by (induction ids arbitrary: w) simp_all
lemma subseq_stopAllTimers [simp]:
  "subseq (suspended w) xs \<Longrightarrow> subseq (suspended (stopAllTimers w)) xs"
  by (simp add: stopAllTimers_def)
lemma subseq_triggerGameOver [simp]:
  "subseq (suspended w) xs \<Longrightarrow> subseq (suspended (triggerGameOver w)) xs"
  by (simp add: triggerGameOver_def Let_def split: option.splits)
lemma subseq_drain_callback [simp]:
  "subseq (suspended w) xs \<Longrightarrow> subseq (suspended (drain_callback w)) xs"
  by (simp add: drain_callback_def Let_def)
lemma subseq_resetForNewPhase [simp]:
  "subseq (suspended w) xs \<Longrightarrow> subseq (suspended (resetForNewPhase w)) xs"
  by (simp add: resetForNewPhase_def Let_def)
lemma subseq_endGame [simp]: "subseq (suspended w) xs \<Longrightarrow> subseq (suspended (endGame w)) xs"
  by (simp add: endGame_def)
lemma subseq_nextCondition [simp]:
  "subseq (suspended w) xs \<Longrightarrow> subseq (suspended (fst (nextCondition w))) xs"
  by (simp add: nextCondition_def Let_def split: option.splits)
lemma subseq_startConditionSequence [simp]:
  "subseq (suspended w) xs \<Longrightarrow> subseq (suspended (fst (startConditionSequence w))) xs"
  by (simp add: startConditionSequence_def)
lemma subseq_run_on_complete [simp]:
  "subseq (suspended w) xs \<Longrightarrow> subseq (suspended (fst (run_on_complete oc w))) xs"
  by (cases oc) simp_all
lemma subseq_startExposure [simp]:
  "subseq (suspended w) xs \<Longrightarrow> subseq (suspended (startExposure now w)) xs"
  by (simp add: startExposure_def Let_def)
lemma subseq_startCondition [simp]:
  "subseq (suspended w) xs \<Longrightarrow> subseq (suspended (startCondition c now w)) xs"
  by (simp add: startCondition_def Let_def)
lemma subseq_update_days_left [simp]:
  "subseq (suspended w) xs \<Longrightarrow> subseq (suspended (update_days_left i ld oc r w)) xs"
  by simp
lemma subseq_condition_callback [simp]:
  "subseq (suspended w) xs \<Longrightarrow> subseq (suspended (fst (condition_callback i ld oc w))) xs"
  by (simp add: condition_callback_def Let_def split: option.splits)
lemma subseq_run_callback [simp]:
  "subseq (suspended w) xs \<Longrightarrow> subseq (suspended (fst (run_callback i cb w))) xs"
  by (simp add: run_callback_def split: callback.splits)
lemma subseq_tick [simp]:
  "subseq (suspended w) xs \<Longrightarrow> subseq (suspended (tick i now now2 w)) xs"
  by (simp add: tick_def Let_def case_prod_beta split: option.splits)

lemma subseq_set: "subseq xs ys \<Longrightarrow> x \<in> set xs \<Longrightarrow> x \<in> set ys"
  by (induction rule: list_emb.induct) auto
lemma subseq_notin: "subseq xs ys \<Longrightarrow> x \<notin> set ys \<Longrightarrow> x \<notin> set xs"
  using subseq_set [of xs ys x] by auto
lemma subseq_distinct_map:
  assumes "subseq xs ys" "distinct (map f ys)"
  shows "distinct (map f xs)"
proof -
  have "subseq (map f xs) (map f ys)"
    using assms(1) by (rule subseq_map)
  then have "map f xs \<in> set (subseqs (map f ys))"
    by simp
  then show ?thesis
    using assms(2) by (rule subseqs_distinctD)
qed

text \<open>
  Operations that settle delays only (\<open>cancel\<close>, \<open>stopAllTimers\<close> and what calls them)
  queue continuations that stand at the \<open>await\<close> of a delay.
\<close>

lemma dq_ok_settle [simp]:
  "dq_ok (suspended w) (microtasks w) \<Longrightarrow>
   dq_ok (suspended (settle (AwaitDelay i) v w)) (microtasks (settle (AwaitDelay i) v w))"
  by (auto simp add: dq_ok_def settle_def list_all_iff)

lemma dq_ok_cancel [simp]:
  "dq_ok (suspended w) (microtasks w) \<Longrightarrow> dq_ok (suspended (cancel i w)) (microtasks (cancel i w))"
  using dq_ok_settle [of "w\<lparr>delays := X, activeTimers := Y\<rparr>" for X Y]
  by (simp add: cancel_def Let_def split: option.splits)

lemma dq_ok_delay_fire [simp]:
  "dq_ok (suspended w) (microtasks w) \<Longrightarrow>
   dq_ok (suspended (delay_fire i w)) (microtasks (delay_fire i w))"
  using dq_ok_settle [of "w\<lparr>delays := X, activeTimers := Y\<rparr>" for X Y]
  by (simp add: delay_fire_def Let_def split: option.splits)

lemma dq_ok_stop_entry [simp]:
  "dq_ok (suspended w) (microtasks w) \<Longrightarrow>
   dq_ok (suspended (stop_entry w i)) (microtasks (stop_entry w i))"
  by (simp add: stop_entry_def split: option.splits)

lemma dq_ok_foldl_stop_entry [simp]:
  "dq_ok (suspended w) (microtasks w) \<Longrightarrow>
   dq_ok (suspended (foldl stop_entry w ids)) (microtasks (foldl stop_entry w ids))"
  by (induction ids arbitrary: w) simp_all

lemma dq_ok_stopAllTimers [simp]:
  "dq_ok (suspended w) (microtasks w) \<Longrightarrow>
   dq_ok (suspended (stopAllTimers w)) (microtasks (stopAllTimers w))"
  by (simp add: stopAllTimers_def)

lemma dq_ok_resetForNewPhase [simp]:
  "dq_ok (suspended w) (microtasks w) \<Longrightarrow>
   dq_ok (suspended (resetForNewPhase w)) (microtasks (resetForNewPhase w))"
  by (simp add: resetForNewPhase_def Let_def)

lemma dq_ok_endGame [simp]:
  "dq_ok (suspended w) (microtasks w) \<Longrightarrow> dq_ok (suspended (endGame w)) (microtasks (endGame w))"
  by (simp add: endGame_def)

lemma dq_ok_nextCondition [simp]:
  "dq_ok (suspended w) (microtasks w) \<Longrightarrow>
   dq_ok (suspended (fst (nextCondition w))) (microtasks (fst (nextCondition w)))"
  by (simp add: nextCondition_def Let_def split: option.splits)

lemma dq_ok_startConditionSequence [simp]:
  "dq_ok (suspended w) (microtasks w) \<Longrightarrow>
   dq_ok (suspended (fst (startConditionSequence w))) (microtasks (fst (startConditionSequence w)))"
  by (simp add: startConditionSequence_def)

lemma dq_ok_run_on_complete [simp]:
  "dq_ok (suspended w) (microtasks w) \<Longrightarrow>
   dq_ok (suspended (fst (run_on_complete oc w))) (microtasks (fst (run_on_complete oc w)))"
  by (cases oc) simp_all

lemma dq_ok_startExposure [simp]:
  "dq_ok (suspended w) (microtasks w) \<Longrightarrow>
   dq_ok (suspended (startExposure now w)) (microtasks (startExposure now w))"
  by (simp add: startExposure_def Let_def)

lemma dq_ok_startCondition [simp]:
  "dq_ok (suspended w) (microtasks w) \<Longrightarrow>
   dq_ok (suspended (startCondition c now w)) (microtasks (startCondition c now w))"
  by (simp add: startCondition_def Let_def)

lemma dq_ok_condition_callback [simp]:
  "dq_ok (suspended w) (microtasks w) \<Longrightarrow>
   dq_ok (suspended (fst (condition_callback i ld oc w))) (microtasks (fst (condition_callback i ld oc w)))"
  by (simp add: condition_callback_def Let_def split: option.splits)


lemma acct_cong: "store w' = store w \<Longrightarrow> trials w' = trials w \<Longrightarrow> acct w' = acct w"
  by (simp add: acct_def)

lemma acct_frames [simp]:
  "acct (stopAllTimers w) = acct w"
  "acct (stop i w) = acct w"
  "acct (cancel i w) = acct w"
  "acct (delay_fire i w) = acct w"
  "acct (anim_fire a w) = acct w"
  "acct (pauseAllTimers now w) = acct w"
  "acct (resumeAllTimers now w) = acct w"
  "acct (upd_timer i f w) = acct w"
  "acct (snd (playEatingAnimation el w)) = acct w"
  "acct (snd (createTimer cb n now w)) = acct w"
  "acct (snd (createDelay n now w)) = acct w"
  by (simp_all add: acct_def)

lemma store_triggerGameOver:
  "store (triggerGameOver w) = (store w)\<lparr>isDead := True, choicesDisabled := True\<rparr>"
  by (simp add: triggerGameOver_def Let_def split: option.splits)

lemma acct_triggerGameOver [simp]: "acct (triggerGameOver w) = acct w"
  by (simp add: acct_def store_triggerGameOver)

lemma store_drain_callback:
  "store (drain_callback w) =
     (if currentEnergy (store w) \<le> 0 then store w
      else if currentEnergy (store w) = 1
           then (store w)\<lparr>currentEnergy := 0, isDead := True, choicesDisabled := True\<rparr>
           else (store w)\<lparr>currentEnergy := currentEnergy (store w) - 1\<rparr>)"
  by (simp add: drain_callback_def Let_def store_triggerGameOver)

lemma store_stopAllTimers: "store (stopAllTimers w) = store w"
  by simp

lemma store_resetForNewPhase:
  "store (resetForNewPhase w) =
     (store w)\<lparr>currentEnergy := STARTING_ENERGY, currentDelayMs := INITIAL_DELAY_MS,
               trialNumber := 0, isAnimating := False, isWaitingDelay := False,
               isDead := False, choicesDisabled := False, conditionElapsedMs := 0,
               daysLeft := DAYS_PER_CONDITION\<rparr>"
  by (simp add: resetForNewPhase_def Let_def)

text \<open>The continuations.\<close>

lemma run_cont_frame [simp]:
  "microtasks (run_cont k v w) = microtasks w"
  "gameOverShown (run_cont k v w) = gameOverShown w"
  "drainTimer (run_cont k v w) = drainTimer w"
  "conditionCountdown (run_cont k v w) = conditionCountdown w"
  "timerId (run_cont k v w) = timerId w"
  "delays (run_cont k v w) = delays w"
  "screen (run_cont k v w) = screen w"
  "continueTarget (run_cont k v w) = continueTarget w"
  by (cases k; simp add: Let_def case_prod_beta split: option.splits)+

lemma run_cont_dead:
  assumes "isDead (store w)"
  shows "isDead (store (run_cont k v w))"
    and "acct (run_cont k v w) = acct w"
    and "suspended (run_cont k v w) = suspended w"
    and "animIds (run_cont k v w) = animIds w"
    and "rewardAmount (store (run_cont k v w)) = rewardAmount (store w)"
    and "phase (store (run_cont k v w)) = phase (store w)"
    and "choicesDisabled (store (run_cont k v w)) = choicesDisabled (store w)"
    and "\<not> isAnimating (store (run_cont k v w))"
    and "isWaitingDelay (store (run_cont k v w)) = (isWaitingDelay (store w) \<and> \<not> is_delay_cont k)"
  using assms
  by (cases k; simp add: Let_def acct_def split: option.splits)+

lemma run_cont_delay:
  assumes "is_delay_cont k"
  shows "acct (run_cont k v w) = acct w"
    and "isDead (store (run_cont k v w)) = isDead (store w)"
    and "rewardAmount (store (run_cont k v w)) = rewardAmount (store w)"
  using assms
  by (cases k; simp add: Let_def acct_def case_prod_beta split: option.splits)+

lemma foldl_run_cont_dead:
  assumes "isDead (store w)"
  shows "isDead (store (foldl (\<lambda>w' p. run_cont (fst p) (snd p) w') w q))
    \<and> acct (foldl (\<lambda>w' p. run_cont (fst p) (snd p) w') w q) = acct w
    \<and> suspended (foldl (\<lambda>w' p. run_cont (fst p) (snd p) w') w q) = suspended w
    \<and> animIds (foldl (\<lambda>w' p. run_cont (fst p) (snd p) w') w q) = animIds w
    \<and> rewardAmount (store (foldl (\<lambda>w' p. run_cont (fst p) (snd p) w') w q)) = rewardAmount (store w)
    \<and> phase (store (foldl (\<lambda>w' p. run_cont (fst p) (snd p) w') w q)) = phase (store w)
    \<and> choicesDisabled (store (foldl (\<lambda>w' p. run_cont (fst p) (snd p) w') w q))
        = choicesDisabled (store w)"
  using assms
proof (induction q arbitrary: w)
  case Nil
  then show ?case by simp
next
  case (Cons p q)
  from Cons.prems have d: "isDead (store (run_cont (fst p) (snd p) w))"
    by (rule run_cont_dead)
  show ?case
    using Cons.IH [OF d] run_cont_dead [OF Cons.prems, of "fst p" "snd p"]
    by simp
qed

lemma foldl_run_cont_frame [simp]:
  "microtasks (foldl (\<lambda>w' p. run_cont (fst p) (snd p) w') w q) = microtasks w"
  "gameOverShown (foldl (\<lambda>w' p. run_cont (fst p) (snd p) w') w q) = gameOverShown w"
  "drainTimer (foldl (\<lambda>w' p. run_cont (fst p) (snd p) w') w q) = drainTimer w"
  "conditionCountdown (foldl (\<lambda>w' p. run_cont (fst p) (snd p) w') w q) = conditionCountdown w"
  "timerId (foldl (\<lambda>w' p. run_cont (fst p) (snd p) w') w q) = timerId w"
  "delays (foldl (\<lambda>w' p. run_cont (fst p) (snd p) w') w q) = delays w"
  "screen (foldl (\<lambda>w' p. run_cont (fst p) (snd p) w') w q) = screen w"
  "continueTarget (foldl (\<lambda>w' p. run_cont (fst p) (snd p) w') w q) = continueTarget w"
  by (induction q arbitrary: w; simp)+

lemma run_microtasks_frame [simp]:
  "microtasks (run_microtasks w) = []"
  "gameOverShown (run_microtasks w) = gameOverShown w"
  "drainTimer (run_microtasks w) = drainTimer w"
  "conditionCountdown (run_microtasks w) = conditionCountdown w"
  "timerId (run_microtasks w) = timerId w"
  "delays (run_microtasks w) = delays w"
  "screen (run_microtasks w) = screen w"
  "continueTarget (run_microtasks w) = continueTarget w"
  by (simp_all add: run_microtasks_def)

lemma run_microtasks_Nil [simp]: "microtasks w = [] \<Longrightarrow> run_microtasks w = w"
  by (simp add: run_microtasks_def)

lemma run_microtasks_dead:
  assumes "isDead (store w)"
  shows "isDead (store (run_microtasks w))"
    and "acct (run_microtasks w) = acct w"
    and "suspended (run_microtasks w) = suspended w"
    and "animIds (run_microtasks w) = animIds w"
    and "rewardAmount (store (run_microtasks w)) = rewardAmount (store w)"
    and "phase (store (run_microtasks w)) = phase (store w)"
    and "choicesDisabled (store (run_microtasks w)) = choicesDisabled (store w)"
  using foldl_run_cont_dead [of "w\<lparr>microtasks := []\<rparr>" "microtasks w"] assms
  by (simp_all add: run_microtasks_def acct_def)

section \<open>The decay tick and game over\<close>

lemma timer_stop_fired [simp]: "timer_stop (timeout_fired t) = timeout_fired t"
  by (simp add: timer_stop_def timeout_fired_def)

lemma task_TimerFire:
  assumes "timers w i = Some t" "timeoutHandle t = Some h" "\<not> paused t"
  shows "task (TimerFire i now now2) w =
           (let w0 = upd_timer i timeout_fired w;
                r = run_callback i (callback t) w0
            in if snd r then fst r
               else upd_timer i (tick_rearm now now2 (now - expected t)) (fst r))"
  using assms
  by (simp add: task_def tick_def timers_upd_timer timeout_fired_def Let_def case_prod_beta)

lemma task_TimerFire_drain:
  assumes "timers w i = Some t" "callback t = DrainCb" "timeoutHandle t = Some h" "\<not> paused t"
  shows "task (TimerFire i now now2) w =
           upd_timer i (tick_rearm now now2 (now - expected t))
             (drain_callback (upd_timer i timeout_fired w))"
  using assms by (simp add: task_TimerFire run_callback_def Let_def)

lemma drain_callback_dead: "currentEnergy (store w) \<le> 0 \<Longrightarrow> drain_callback w = w"
  by (simp add: drain_callback_def)

lemma drain_callback_kill:
  "currentEnergy (store w) = 1 \<Longrightarrow>
   drain_callback w = triggerGameOver (setState (\<lambda>s. s\<lparr>currentEnergy := 0\<rparr>) w)"
  by (simp add: drain_callback_def Let_def)

lemma timers_stop:
  "timers (stop j w) i = (if i = j then map_option timer_stop (timers w j) else timers w i)"
  by (simp add: stop_def timers_upd_timer)

lemma activeTimers_stop [simp]: "activeTimers (stop j w) = removeAll j (activeTimers w)"
  by (simp add: stop_def)

lemma timers_stopDrain:
  "timers (stopDrain w) i =
     (if drainTimer w = Some i then map_option timer_stop (timers w i) else timers w i)"
  by (auto simp add: stopDrain_def timers_stop split: option.splits)

lemma timers_simple_frames [simp]:
  "timers (settle a v w) = timers w"
  "timers (cancel j w) = timers w"
  "timers (interruptAnimation el w) = timers w"
  by (simp_all add: cancel_def interruptAnimation_def Let_def split: option.splits)

lemma timers_triggerGameOver_fired:
  assumes "timers w i = Some (timeout_fired t)"
  shows "timers (triggerGameOver w) i = Some (timeout_fired t)"
  using assms
  by (auto simp add: triggerGameOver_def Let_def timers_stopDrain timers_stop split: option.splits)

lemma triggerGameOver_handles [simp]:
  "drainTimer (triggerGameOver w) = None"
  "delayCountdownTimer (triggerGameOver w) = None"
  "activeDelay (triggerGameOver w) = None"
  by (simp_all add: triggerGameOver_def Let_def stopDrain_def split: option.splits)

lemma gameOverShown_triggerGameOver [simp]:
  "gameOverShown (triggerGameOver w) = gameOverShown w + 1"
  by (simp add: triggerGameOver_def Let_def split: option.splits)

lemma activeTimers_stopDrain:
  "activeTimers (stopDrain w) = (case drainTimer w of None \<Rightarrow> activeTimers w
                                 | Some i \<Rightarrow> removeAll i (activeTimers w))"
  by (simp add: stopDrain_def split: option.splits)

lemma activeTimers_cancel [simp]: "set (activeTimers (cancel j w)) \<subseteq> set (activeTimers w)"
  by (auto simp add: cancel_def Let_def split: option.splits)

lemma triggerGameOver_deregisters:
  "drainTimer w = Some i \<Longrightarrow> i \<notin> set (activeTimers (triggerGameOver w))"
  by (simp add: triggerGameOver_def Let_def activeTimers_stopDrain split: option.splits)

text \<open>In a dead state with no visual countdown left, continuations leave the timers alone.\<close>

lemma run_cont_dead_timers:
  assumes "isDead (store w)" "delayCountdownTimer w = None"
  shows "timers (run_cont k v w) = timers w"
    and "activeTimers (run_cont k v w) = activeTimers w"
    and "delayCountdownTimer (run_cont k v w) = None"
  using assms by (cases k; simp add: Let_def)+

lemma foldl_run_cont_dead_timers:
  assumes "isDead (store w)" "delayCountdownTimer w = None"
  shows "timers (foldl (\<lambda>w' p. run_cont (fst p) (snd p) w') w q) = timers w
    \<and> activeTimers (foldl (\<lambda>w' p. run_cont (fst p) (snd p) w') w q) = activeTimers w"
  using assms
proof (induction q arbitrary: w)
  case Nil
  then show ?case by simp
next
  case (Cons p q)
  have d: "isDead (store (run_cont (fst p) (snd p) w))"
    using Cons.prems(1) by (rule run_cont_dead)
  have n: "delayCountdownTimer (run_cont (fst p) (snd p) w) = None"
    using Cons.prems by (rule run_cont_dead_timers)
  show ?case
    using Cons.IH [OF d n] run_cont_dead_timers [OF Cons.prems, of "fst p" "snd p"]
    by simp
qed

lemma run_microtasks_dead_timers:
  assumes "isDead (store w)" "delayCountdownTimer w = None"
  shows "timers (run_microtasks w) = timers w"
    and "activeTimers (run_microtasks w) = activeTimers w"
  using foldl_run_cont_dead_timers [of "w\<lparr>microtasks := []\<rparr>" "microtasks w"] assms
  by (simp_all add: run_microtasks_def)


lemma dead_world_eval:
  "timers dead_world (Suc 0) = Some (new_timer DrainCb 3000 0)"
  "store dead_world = initialState\<lparr>currentEnergy := 0\<rparr>"
  "microtasks dead_world = []"
  "gameOverShown dead_world = 0"
  by (simp_all add: dead_world_def drain_world_eval drain_world_def createTimer_def
      initial_world_def Let_def)

lemma waiting_world_eval:
  "store waiting_world = initialState\<lparr>group := Some GroupA, rewardAmount := 5, phase := Exposure,
      trialNumber := 1, isWaitingDelay := True, choicesDisabled := True\<rparr>"
  "suspended waiting_world = [(AwaitDelay 4, LLAfterDelay Exposure 6000 50)]"
  "microtasks waiting_world = []"
  "activeDelay waiting_world = Some 4"
  "delays waiting_world 4 = Some (new_delay 6000 5)"
  "timers waiting_world (Suc 0) = Some (new_timer DrainCb 3000 0)"
  "trials waiting_world = []"
  "gameOverShown waiting_world = 0"
  by (simp_all add: waiting_world_def model_defs config_defs Let_def)

lemma dying_world_eval:
  "store dying_world = initialState\<lparr>group := Some GroupA, rewardAmount := 5, phase := Exposure,
      trialNumber := 1, isWaitingDelay := True, choicesDisabled := True, currentEnergy := 1\<rparr>"
  "suspended dying_world = [(AwaitDelay 4, LLAfterDelay Exposure 6000 50)]"
  "microtasks dying_world = []"
  "activeDelay dying_world = Some 4"
  "delays dying_world 4 = Some (new_delay 6000 5)"
  "timers dying_world (Suc 0) = Some (new_timer DrainCb 3000 0)"
  "trials dying_world = []"
  "gameOverShown dying_world = 0"
  by (simp_all add: dying_world_def waiting_world_eval)

text \<open>
  One tick of a drain timer. Let its timeout run. If the energy is 1, the tick sets it to 0 and
  game over is triggered exactly once: the dead flag is set and the count of game-over
  runs goes up by one. The handler releases \<open>drainTimer\<close> and takes the timer out of the
  registry, yet the tick re-arms the timer after its callback, so later ticks do run. If
  the energy has reached 0, the callback returns at once and the tick changes nothing
  but the schedule of its own timer: no energy change and no second game over.
\<close>

theorem drain_tick_death_once:
  assumes "timers w i = Some t" and "callback t = DrainCb"
    and "timeoutHandle t = Some h" and "\<not> paused t"
  shows "(currentEnergy (store w) = 1 \<longrightarrow>
            currentEnergy (store (step (TimerFire i now now2) w)) = 0
          \<and> isDead (store (step (TimerFire i now now2) w))
          \<and> gameOverShown (step (TimerFire i now now2) w) = gameOverShown w + 1
          \<and> drainTimer (step (TimerFire i now now2) w) = None
          \<and> (drainTimer w = Some i \<longrightarrow> i \<notin> set (activeTimers (step (TimerFire i now now2) w)))
          \<and> timers (step (TimerFire i now now2) w) i
              = Some (tick_rearm now now2 (now - expected t) (timeout_fired t)))
       \<and> (currentEnergy (store w) \<le> 0 \<longrightarrow> microtasks w = [] \<longrightarrow>
            drain_callback w = w
          \<and> step (TimerFire i now now2) w
              = w\<lparr>timers := (timers w)(i \<mapsto> tick_rearm now now2 (now - expected t) (timeout_fired t))\<rparr>)"
proof (intro conjI impI)
  let ?w0 = "upd_timer i timeout_fired w"
  let ?k = "triggerGameOver (setState (\<lambda>s. s\<lparr>currentEnergy := 0\<rparr>) ?w0)"
  let ?r = "upd_timer i (tick_rearm now now2 (now - expected t)) ?k"
  assume e: "currentEnergy (store w) = 1"
  have task: "task (TimerFire i now now2) w = ?r"
    using e by (simp add: task_TimerFire_drain [OF assms] drain_callback_kill)
  have dead: "isDead (store ?r)"
    by (simp add: store_triggerGameOver)
  have nov: "delayCountdownTimer ?r = None"
    by simp
  have st: "step (TimerFire i now now2) w = run_microtasks ?r"
    by (simp add: step_def task)
  have "acct (run_microtasks ?r) = acct ?r"
    using dead by (rule run_microtasks_dead)
  then show "currentEnergy (store (step (TimerFire i now now2) w)) = 0"
    by (simp add: st acct_def store_triggerGameOver)
  show "isDead (store (step (TimerFire i now now2) w))"
    unfolding st using dead by (rule run_microtasks_dead)
  show "gameOverShown (step (TimerFire i now now2) w) = gameOverShown w + 1"
    by (simp add: st)
  show "drainTimer (step (TimerFire i now now2) w) = None"
    by (simp add: st)
  have fired: "timers (setState (\<lambda>s. s\<lparr>currentEnergy := 0\<rparr>) ?w0) i = Some (timeout_fired t)"
    using assms(1) by (simp add: timers_upd_timer)
  show "timers (step (TimerFire i now now2) w) i
          = Some (tick_rearm now now2 (now - expected t) (timeout_fired t))"
    by (simp add: st run_microtasks_dead_timers [OF dead nov] timers_upd_timer
        timers_triggerGameOver_fired [OF fired])
  show "i \<notin> set (activeTimers (step (TimerFire i now now2) w))" if "drainTimer w = Some i"
    using that
    by (simp add: st run_microtasks_dead_timers [OF dead nov] triggerGameOver_deregisters)
next
  assume "currentEnergy (store w) \<le> 0"
  then show "drain_callback w = w"
    by (rule drain_callback_dead)
next
  assume e: "currentEnergy (store w) \<le> 0" and q: "microtasks w = []"
  have "task (TimerFire i now now2) w
          = upd_timer i (tick_rearm now now2 (now - expected t)) (upd_timer i timeout_fired w)"
    using e by (simp add: task_TimerFire_drain [OF assms] drain_callback_dead)
  also have "\<dots> = w\<lparr>timers := (timers w)(i \<mapsto> tick_rearm now now2 (now - expected t) (timeout_fired t))\<rparr>"
    using assms(1) by (simp add: upd_timer_def)
  finally show "step (TimerFire i now now2) w
      = w\<lparr>timers := (timers w)(i \<mapsto> tick_rearm now now2 (now - expected t) (timeout_fired t))\<rparr>"
    using q by (simp add: step_def)
qed

theorem drain_tick_death_once_witness:
  "timers dying_world 1 = Some (new_timer DrainCb 3000 0)
   \<and> callback (new_timer DrainCb 3000 0) = DrainCb
   \<and> timeoutHandle (new_timer DrainCb 3000 0) = Some 3000
   \<and> \<not> paused (new_timer DrainCb 3000 0)
   \<and> currentEnergy (store dying_world) = 1
   \<and> currentEnergy (store (step (TimerFire 1 3000 3001) dying_world)) = 0
   \<and> gameOverShown (step (TimerFire 1 3000 3001) dying_world) = 1
   \<and> timers dead_world 1 = Some (new_timer DrainCb 3000 0)
   \<and> currentEnergy (store dead_world) \<le> 0 \<and> microtasks dead_world = []
   \<and> store (step (TimerFire 1 3000 3001) dead_world) = store dead_world
   \<and> gameOverShown (step (TimerFire 1 3000 3001) dead_world) = 0"
  using drain_tick_death_once [of dying_world 1 "new_timer DrainCb 3000 0" 3000 3000 3001]
    drain_tick_death_once [of dead_world 1 "new_timer DrainCb 3000 0" 3000 3000 3001]
  by (simp add: dying_world_eval dead_world_eval new_timer_def)

section \<open>A trial cut short by game over\<close>

lemma delays_interruptAnimation [simp]: "delays (interruptAnimation el w) = delays w"
  by simp

lemma suspended_cancel_pending:
  assumes "delays w d = Some dl" "promise dl = None"
  shows "suspended (cancel d w) = filter (\<lambda>p. fst p \<noteq> AwaitDelay d) (suspended w)"
  using assms by (simp add: cancel_def Let_def suspended_settle)

lemma suspended_interruptAnimation:
  "suspended (interruptAnimation el w) =
     (case animCleanup w el of None \<Rightarrow> suspended w
      | Some n \<Rightarrow> filter (\<lambda>p. fst p \<noteq> AwaitAnim n) (suspended w))"
  by (simp add: interruptAnimation_def suspended_settle split: option.splits)

lemma triggerGameOver_resumes:
  assumes "in_flight w a"
  shows "(a, k) \<notin> set (suspended (triggerGameOver w))"
proof (cases a)
  case (AwaitAnim n)
  let ?w1 = "setState (\<lambda>s. s\<lparr>isDead := True, choicesDisabled := True\<rparr>) w"
  let ?w2 = "interruptAnimation (prefix_of (phase (store ?w1))) ?w1"
  have "animCleanup w (prefix_of (phase (store w))) = Some n"
    using assms AwaitAnim by (simp add: in_flight_def)
  then have "(a, k) \<notin> set (suspended ?w2)"
    using AwaitAnim by (simp add: suspended_interruptAnimation)
  moreover have "subseq (suspended (triggerGameOver w)) (suspended ?w2)"
    by (simp add: triggerGameOver_def Let_def stopDrain_def split: option.splits)
  ultimately show ?thesis
    by (rule subseq_notin [rotated])
next
  case (AwaitDelay d)
  let ?w1 = "setState (\<lambda>s. s\<lparr>isDead := True, choicesDisabled := True\<rparr>) w"
  let ?w2 = "interruptAnimation (prefix_of (phase (store ?w1))) ?w1"
  let ?w3 = "(cancel d ?w2)\<lparr>activeDelay := None\<rparr>"
  from assms AwaitDelay obtain dl where
    ad: "activeDelay w = Some d" and dl: "delays w d = Some dl" and p: "promise dl = None"
    by (auto simp add: in_flight_def split: option.splits)
  have "suspended ?w3 = filter (\<lambda>p. fst p \<noteq> AwaitDelay d) (suspended ?w2)"
    using dl p by (simp add: suspended_cancel_pending)
  then have "(a, k) \<notin> set (suspended ?w3)"
    using AwaitDelay by simp
  moreover have "subseq (suspended (triggerGameOver w)) (suspended ?w3)"
    using ad by (simp add: triggerGameOver_def Let_def stopDrain_def split: option.splits)
  ultimately show ?thesis
    by (rule subseq_notin [rotated])
qed

lemma in_flight_frame:
  "in_flight (setState (\<lambda>s. s\<lparr>currentEnergy := e\<rparr>) (upd_timer i f w)) a = in_flight w a"
  by (cases a) (simp_all add: in_flight_def)




text \<open>
  C1. A choice procedure is suspended at the \<open>await\<close> of its delay or of its eating
  animation, and that Promise is the one game over settles. When the drain tick that
  takes the last point of energy runs, the procedure has resumed and ended by the end of
  that task: it is neither suspended nor queued any more, the energy is 0, and
  \<open>totalEnergyGained\<close>, \<open>currentDelayMs\<close> and the list of recorded trials are what they were
  before the tick.
\<close>

theorem death_aborts_trial_in_flight:
  assumes "timers w i = Some t" and "callback t = DrainCb"
    and "timeoutHandle t = Some h" and "\<not> paused t"
    and "currentEnergy (store w) = 1"
    and "(a, k) \<in> set (suspended w)" and "in_flight w a"
  shows "isDead (store (step (TimerFire i now now2) w))
       \<and> (a, k) \<notin> set (suspended (step (TimerFire i now now2) w))
       \<and> microtasks (step (TimerFire i now now2) w) = []
       \<and> currentEnergy (store (step (TimerFire i now now2) w)) = 0
       \<and> totalEnergyGained (store (step (TimerFire i now now2) w)) = totalEnergyGained (store w)
       \<and> currentDelayMs (store (step (TimerFire i now now2) w)) = currentDelayMs (store w)
       \<and> trials (step (TimerFire i now now2) w) = trials w"
proof -
  let ?w1 = "setState (\<lambda>s. s\<lparr>currentEnergy := 0\<rparr>) (upd_timer i timeout_fired w)"
  let ?r = "upd_timer i (tick_rearm now now2 (now - expected t)) (triggerGameOver ?w1)"
  have task: "task (TimerFire i now now2) w = ?r"
    using assms(5) by (simp add: task_TimerFire_drain [OF assms(1-4)] drain_callback_kill)
  have st: "step (TimerFire i now now2) w = run_microtasks ?r"
    by (simp add: step_def task)
  have dead: "isDead (store ?r)"
    by (simp add: store_triggerGameOver)
  have "in_flight ?w1 a"
    using assms(7) by (simp add: in_flight_frame)
  then have gone: "(a, k) \<notin> set (suspended ?r)"
    by (simp add: triggerGameOver_resumes)
  have a: "acct (run_microtasks ?r) = acct ?r"
    using dead by (rule run_microtasks_dead)
  have s: "suspended (run_microtasks ?r) = suspended ?r"
    using dead by (rule run_microtasks_dead)
  have d: "isDead (store (run_microtasks ?r))"
    using dead by (rule run_microtasks_dead)
  show ?thesis
    using a s d gone by (simp add: st acct_def store_triggerGameOver)
qed

theorem death_aborts_trial_in_flight_witness:
  "timers dying_world 1 = Some (new_timer DrainCb 3000 0)
   \<and> callback (new_timer DrainCb 3000 0) = DrainCb
   \<and> timeoutHandle (new_timer DrainCb 3000 0) = Some 3000
   \<and> \<not> paused (new_timer DrainCb 3000 0)
   \<and> currentEnergy (store dying_world) = 1
   \<and> (AwaitDelay 4, LLAfterDelay Exposure 6000 50) \<in> set (suspended dying_world)
   \<and> in_flight dying_world (AwaitDelay 4)
   \<and> (AwaitDelay 4, LLAfterDelay Exposure 6000 50)
        \<notin> set (suspended (step (TimerFire 1 3000 3001) dying_world))
   \<and> currentEnergy (store (step (TimerFire 1 3000 3001) dying_world)) = 0
   \<and> totalEnergyGained (store (step (TimerFire 1 3000 3001) dying_world)) = 0
   \<and> currentDelayMs (store (step (TimerFire 1 3000 3001) dying_world)) = 6000
   \<and> trials (step (TimerFire 1 3000 3001) dying_world) = []"
  using death_aborts_trial_in_flight
    [of dying_world 1 "new_timer DrainCb 3000 0" 3000 "AwaitDelay 4"
        "LLAfterDelay Exposure 6000 50" 3000 3001]
  by (simp add: dying_world_eval new_timer_def in_flight_def new_delay_def initialState_def)


section \<open>Invariants of the reachable states\<close>

lemma store_ok_core: "core s' = core s \<Longrightarrow> store_ok s' = store_ok s"
  by (simp add: core_def store_ok_def)

lemma core_endGame [simp]: "core (store (endGame w)) = core (store w)"
  by (simp add: endGame_def core_def)

lemma core_nextCondition [simp]: "core (store (fst (nextCondition w))) = core (store w)"
  by (simp add: nextCondition_def Let_def core_def endGame_def split: option.splits)

lemma core_startConditionSequence [simp]:
  "core (store (fst (startConditionSequence w))) = core (store w)"
  by (simp add: startConditionSequence_def) (simp add: core_def)

lemma core_run_on_complete [simp]: "core (store (fst (run_on_complete oc w))) = core (store w)"
  by (cases oc) simp_all

lemma core_update_days_left [simp]: "core (store (update_days_left i ld oc r w)) = core (store w)"
  by (simp add: update_days_left_def Let_def core_def)

lemma core_condition_callback [simp]:
  "core (store (fst (condition_callback i ld oc w))) = core (store w)"
  by (simp add: condition_callback_def Let_def split: option.splits) (simp add: core_def)

lemma phase_update_days_left [simp]: "phase (store (update_days_left i ld oc r w)) = phase (store w)"
  by (simp add: update_days_left_def Let_def)

text \<open>store_ok is kept by every continuation\<close>

lemma store_run_cont_Fish:
  "store (run_cont (FishAfterAnim ph eb) v w) =
     (if isDead (store w) then (store w)\<lparr>isAnimating := False\<rparr>
      else (if ph = Exposure then exposureFishCount_update (\<lambda>n. n + 1) else id)
             (adjustDelay Increase
               ((store w)\<lparr>currentEnergy := min MAX_ENERGY (currentEnergy (store w) + SMALLER_SOONER_REWARD),
                          totalEnergyGained := totalEnergyGained (store w) + SMALLER_SOONER_REWARD,
                          isAnimating := False, choicesDisabled := False\<rparr>)))"
  by (simp add: Let_def)

lemma store_run_cont_LLAfterDelay:
  "store (run_cont (LLAfterDelay ph dl eb) v w) =
     (if \<not> v \<or> isDead (store w) then (store w)\<lparr>isWaitingDelay := False, isAnimating := False\<rparr>
      else (store w)\<lparr>isWaitingDelay := False, isAnimating := True\<rparr>)"
  by (simp add: Let_def case_prod_beta split: option.splits)

lemma store_run_cont_LLAfterAnim:
  "store (run_cont (LLAfterAnim ph dl eb) v w) =
     (if isDead (store w) then (store w)\<lparr>isAnimating := False\<rparr>
      else (if ph = Exposure then exposureLLCount_update (\<lambda>n. n + 1) else id)
             (adjustDelay Decrease
               ((store w)\<lparr>currentEnergy := min MAX_ENERGY (currentEnergy (store w)
                              + (if ph = Exposure then EXPOSURE_REWARD else rewardAmount (store w))),
                          totalEnergyGained := totalEnergyGained (store w)
                              + (if ph = Exposure then EXPOSURE_REWARD else rewardAmount (store w)),
                          isAnimating := False, choicesDisabled := False\<rparr>)))"
  by (simp add: Let_def)

lemma store_ok_grant:
  assumes "store_ok s" "0 \<le> r"
  shows "store_ok (adjustDelay d (s\<lparr>currentEnergy := min MAX_ENERGY (currentEnergy s + r),
            totalEnergyGained := t, isAnimating := False, choicesDisabled := False\<rparr>))"
  using assms by (cases d) (simp_all add: store_ok_def adjustDelay_def Let_def config_defs)

lemma store_ok_counts [simp]:
  "store_ok (s\<lparr>exposureFishCount := n\<rparr>) = store_ok s"
  "store_ok (s\<lparr>exposureLLCount := n\<rparr>) = store_ok s"
  "store_ok (exposureFishCount_update f s) = store_ok s"
  "store_ok (exposureLLCount_update f s) = store_ok s"
  by (simp_all add: store_ok_def)

lemma store_ok_run_cont: "store_ok (store w) \<Longrightarrow> store_ok (store (run_cont k v w))"
proof (cases k)
  case (FishAfterAnim ph eb)
  assume ok: "store_ok (store w)"
  show ?thesis
  proof (cases "isDead (store w)")
    case True
    then show ?thesis using ok FishAfterAnim
      by (simp add: store_run_cont_Fish del: run_cont.simps) (simp add: store_ok_def)
  next
    case False
    then show ?thesis using FishAfterAnim store_ok_grant [OF ok, of SMALLER_SOONER_REWARD]
      by (simp add: store_run_cont_Fish SMALLER_SOONER_REWARD_def del: run_cont.simps)
  qed
next
  case (LLAfterDelay ph dl eb)
  assume ok: "store_ok (store w)"
  then show ?thesis using LLAfterDelay
    by (simp add: store_run_cont_LLAfterDelay del: run_cont.simps) (simp add: store_ok_def)
next
  case (LLAfterAnim ph dl eb)
  assume ok: "store_ok (store w)"
  then have r: "0 \<le> rewardAmount (store w)" and e: "0 \<le> EXPOSURE_REWARD"
    by (simp_all add: store_ok_def EXPOSURE_REWARD_def)
  show ?thesis
  proof (cases "isDead (store w)")
    case True
    then show ?thesis using ok LLAfterAnim
      by (simp add: store_run_cont_LLAfterAnim del: run_cont.simps) (simp add: store_ok_def)
  next
    case False
    then show ?thesis using LLAfterAnim store_ok_grant [OF ok r] store_ok_grant [OF ok e]
      by (simp add: store_run_cont_LLAfterAnim del: run_cont.simps)
  qed
qed

lemma store_ok_foldl_run_cont:
  "store_ok (store w) \<Longrightarrow> store_ok (store (foldl (\<lambda>w' p. run_cont (fst p) (snd p) w') w q))"
  by (induction q arbitrary: w) (simp_all add: store_ok_run_cont)

lemma store_ok_run_microtasks: "store_ok (store w) \<Longrightarrow> store_ok (store (run_microtasks w))"
  using store_ok_foldl_run_cont [of "w\<lparr>microtasks := []\<rparr>"]
  by (simp add: run_microtasks_def)

lemma store_ok_triggerGameOver:
  "store_ok (store w) \<Longrightarrow> store_ok (store (triggerGameOver w))"
  by (simp add: store_triggerGameOver store_ok_def)

lemma store_ok_drain_callback: "store_ok (store w) \<Longrightarrow> store_ok (store (drain_callback w))"
  by (simp add: store_drain_callback store_ok_def)

lemma store_ok_condition_callback [simp]:
  "store_ok (store (fst (condition_callback i ld oc w))) = store_ok (store w)"
  by (rule store_ok_core) simp

lemma store_ok_nextCondition [simp]:
  "store_ok (store (fst (nextCondition w))) = store_ok (store w)"
  by (rule store_ok_core) simp

lemma store_ok_startConditionSequence [simp]:
  "store_ok (store (fst (startConditionSequence w))) = store_ok (store w)"
  by (rule store_ok_core) simp

lemma store_ok_run_on_complete [simp]:
  "store_ok (store (fst (run_on_complete oc w))) = store_ok (store w)"
  by (rule store_ok_core) simp

lemma store_ok_run_callback:
  "store_ok (store w) \<Longrightarrow> store_ok (store (fst (run_callback i cb w)))"
  by (cases cb) (simp_all add: run_callback_def store_ok_drain_callback)

lemma store_tick:
  "store (tick i now now2 w) =
     (case timers w i of None \<Rightarrow> store w
      | Some t \<Rightarrow> if paused t then store w else store (fst (run_callback i (callback t) w)))"
  by (simp add: tick_def Let_def case_prod_beta split: option.splits)

lemma store_ok_tick: "store_ok (store w) \<Longrightarrow> store_ok (store (tick i now now2 w))"
  by (simp add: store_tick store_ok_run_callback split: option.splits)

lemma store_ok_resetForNewPhase:
  "0 \<le> rewardAmount (store w) \<Longrightarrow> store_ok (store (resetForNewPhase w))"
  by (simp add: store_resetForNewPhase store_ok_def config_defs)

lemma store_startExposure:
  "store (startExposure now w) =
     (store w)\<lparr>phase := Exposure, conditionId := None, exposureFishCount := 0, exposureLLCount := 0,
               currentEnergy := STARTING_ENERGY, currentDelayMs := INITIAL_DELAY_MS,
               trialNumber := 0, isAnimating := False, isWaitingDelay := False,
               isDead := False, choicesDisabled := False, conditionElapsedMs := 0,
               daysLeft := DAYS_PER_CONDITION\<rparr>"
  by (simp add: startExposure_def Let_def store_resetForNewPhase)

lemma store_startCondition:
  "store (startCondition c now w) =
     (store w)\<lparr>phase := Condition, conditionId := Some c,
               currentEnergy := STARTING_ENERGY, currentDelayMs := INITIAL_DELAY_MS,
               trialNumber := 0, isAnimating := False, isWaitingDelay := False,
               isDead := False, choicesDisabled := False, conditionElapsedMs := 0,
               daysLeft := DAYS_PER_CONDITION\<rparr>"
  by (simp add: startCondition_def Let_def store_resetForNewPhase)

lemma store_handleFishChoice:
  "store (handleFishChoice w) =
     (if choice_rejected (store w) then store w
      else (store w)\<lparr>trialNumber := trialNumber (store w) + 1, isAnimating := True,
                     choicesDisabled := True\<rparr>)"
  by (simp add: handleFishChoice_def Let_def case_prod_beta)

lemma store_handleLLChoice:
  "store (handleLLChoice now w) =
     (if choice_rejected (store w) then store w
      else (store w)\<lparr>trialNumber := trialNumber (store w) + 1, isWaitingDelay := True,
                     choicesDisabled := True\<rparr>)"
  by (simp add: handleLLChoice_def Let_def case_prod_beta)

lemma group_rewardAmount_nonneg: "0 \<le> group_rewardAmount g"
  by (cases g) simp_all

lemma store_ok_task: "store_ok (store w) \<Longrightarrow> store_ok (store (task ev w))"
proof (cases ev)
  case (StartClick g now)
  then show "store_ok (store w) \<Longrightarrow> ?thesis"
    by (simp add: task_def store_startExposure assignGroup_def store_ok_def config_defs
        group_rewardAmount_nonneg)
next
  case FishClick
  then show "store_ok (store w) \<Longrightarrow> ?thesis"
    by (simp add: task_def store_handleFishChoice store_ok_def choice_rejected_def)
next
  case (LLClick now)
  then show "store_ok (store w) \<Longrightarrow> ?thesis"
    by (simp add: task_def store_handleLLChoice store_ok_def choice_rejected_def)
next
  case ReadyClick
  then show "store_ok (store w) \<Longrightarrow> ?thesis"
    by (simp add: task_def)
next
  case (ContinueClick now)
  then show "store_ok (store w) \<Longrightarrow> ?thesis"
    by (simp add: task_def store_startCondition store_ok_def config_defs split: option.splits)
next
  case (TimerFire i now now2)
  then show "store_ok (store w) \<Longrightarrow> ?thesis"
    by (simp add: task_def store_ok_tick split: option.splits)
next
  case (DelayFire i)
  then show "store_ok (store w) \<Longrightarrow> ?thesis"
    by (simp add: task_def split: option.splits)
next
  case (AnimFire a)
  then show "store_ok (store w) \<Longrightarrow> ?thesis"
    by (simp add: task_def)
next
  case (Hidden now)
  then show "store_ok (store w) \<Longrightarrow> ?thesis"
    by (simp add: task_def store_ok_def)
next
  case (Visible now)
  then show "store_ok (store w) \<Longrightarrow> ?thesis"
    by (simp add: task_def store_ok_def)
qed

lemma store_ok_step: "store_ok (store w) \<Longrightarrow> store_ok (store (step ev w))"
  by (simp add: step_def store_ok_run_microtasks store_ok_task)

lemma store_ok_initial: "store_ok (store initial_world)"
  by (simp add: initial_world_def initialState_def store_ok_def config_defs)

lemma reachable_store_ok: "reachable w \<Longrightarrow> store_ok (store w)"
  by (induction rule: reachable.induct) (simp_all add: store_ok_initial store_ok_step)

lemma await_ok_mono:
  "await_ok na nt p \<Longrightarrow> na \<le> na' \<Longrightarrow> nt \<le> nt' \<Longrightarrow> await_ok na' nt' p"
  by (cases p; cases "fst p") simp_all

lemma await_ok_fresh_anim: "await_ok na nt p \<Longrightarrow> fst p \<noteq> AwaitAnim (na + 1)"
  by (cases p; cases "fst p") simp_all

lemma await_ok_fresh_delay: "await_ok na nt p \<Longrightarrow> nt < d \<Longrightarrow> fst p \<noteq> AwaitDelay d"
  by (cases p; cases "fst p") simp_all

lemma list_all_await_ok_mono:
  assumes "list_all (await_ok na nt) ps" "na \<le> na'" "nt \<le> nt'"
  shows "list_all (await_ok na' nt') ps"
  using assms(1)
  by (induction ps) (simp_all add: await_ok_mono [OF _ assms(2,3)])

lemma list_all_subseq: "subseq xs ys \<Longrightarrow> list_all P ys \<Longrightarrow> list_all P xs"
  by (induction rule: list_emb.induct) simp_all

lemma fresh_notin:
  assumes "list_all (await_ok na nt) ps" "\<And>p. await_ok na nt p \<Longrightarrow> fst p \<noteq> a"
  shows "a \<notin> fst ` set ps"
  using assms(1)
proof (induction ps)
  case Nil
  then show ?case by simp
next
  case (Cons p ps)
  then have "await_ok na nt p" by simp
  then have "fst p \<noteq> a" by (rule assms(2))
  then show ?case using Cons by auto
qed

lemma susp_ok_mono:
  assumes "susp_ok w" "subseq (suspended w') (suspended w)"
    and "animIds w \<le> animIds w'" "timerId w \<le> timerId w'"
  shows "susp_ok w'"
proof -
  have "list_all (await_ok (animIds w) (timerId w)) (suspended w')"
    using assms(2) assms(1) by (simp add: susp_ok_def list_all_subseq)
  then have "list_all (await_ok (animIds w') (timerId w')) (suspended w')"
    using assms(3,4) by (rule list_all_await_ok_mono)
  moreover have "distinct (map fst (suspended w'))"
    using subseq_distinct_map [OF assms(2), of fst] assms(1) by (simp add: susp_ok_def)
  ultimately show ?thesis
    by (simp add: susp_ok_def)
qed

lemma susp_ok_append_anim:
  assumes "susp_ok w" "suspended w' = suspended w @ [(AwaitAnim (animIds w + 1), k)]"
    and "animIds w' = animIds w + 1" "timerId w \<le> timerId w'" "\<not> is_delay_cont k"
  shows "susp_ok w'"
proof -
  have old: "list_all (await_ok (animIds w) (timerId w)) (suspended w)"
    and dist: "distinct (map fst (suspended w))"
    using assms(1) by (simp_all add: susp_ok_def)
  have "list_all (await_ok (animIds w') (timerId w')) (suspended w)"
    using old by (rule list_all_await_ok_mono) (simp_all add: assms(3,4))
  moreover have "AwaitAnim (animIds w + 1) \<notin> fst ` set (suspended w)"
    using old by (rule fresh_notin) (rule await_ok_fresh_anim)
  ultimately show ?thesis
    using dist assms(2,3,5) by (simp add: susp_ok_def)
qed

lemma susp_ok_append_delay:
  assumes "susp_ok w" "suspended w' = suspended w @ [(AwaitDelay d, k)]"
    and "animIds w' = animIds w" "timerId w < d" "d \<le> timerId w'" "is_delay_cont k"
  shows "susp_ok w'"
proof -
  have old: "list_all (await_ok (animIds w) (timerId w)) (suspended w)"
    and dist: "distinct (map fst (suspended w))"
    using assms(1) by (simp_all add: susp_ok_def)
  have "timerId w \<le> timerId w'"
    using assms(4,5) by simp
  then have "list_all (await_ok (animIds w') (timerId w')) (suspended w)"
    using old assms(3) by (simp add: list_all_await_ok_mono)
  moreover have "AwaitDelay d \<notin> fst ` set (suspended w)"
    using old by (rule fresh_notin) (rule await_ok_fresh_delay [OF _ assms(4)])
  ultimately show ?thesis
    using dist assms(2,5,6) by (simp add: susp_ok_def)
qed

lemma suspended_handleFishChoice:
  "suspended (handleFishChoice w) =
     (if choice_rejected (store w) then suspended w
      else suspended w @ [(AwaitAnim (animIds w + 1),
                           FishAfterAnim (phase (store w)) (currentEnergy (store w)))])"
  by (simp add: handleFishChoice_def Let_def playEatingAnimation_def)

lemma ids_handleFishChoice:
  "animIds (handleFishChoice w) = (if choice_rejected (store w) then animIds w else animIds w + 1)"
  "timerId (handleFishChoice w) = timerId w"
  by (simp_all add: handleFishChoice_def Let_def playEatingAnimation_def)

lemma suspended_handleLLChoice:
  "suspended (handleLLChoice now w) =
     (if choice_rejected (store w) then suspended w
      else suspended w @ [(AwaitDelay (timerId w + 2),
             LLAfterDelay (phase (store w)) (currentDelayMs (store w)) (currentEnergy (store w)))])"
  by (simp add: handleLLChoice_def Let_def createTimer_def createDelay_def)

lemma ids_handleLLChoice:
  "animIds (handleLLChoice now w) = animIds w"
  "timerId (handleLLChoice now w) = (if choice_rejected (store w) then timerId w else timerId w + 2)"
  by (simp_all add: handleLLChoice_def Let_def createTimer_def createDelay_def)

lemma susp_ok_handleFishChoice: "susp_ok w \<Longrightarrow> susp_ok (handleFishChoice w)"
proof (cases "choice_rejected (store w)")
  case True
  then show "susp_ok w \<Longrightarrow> ?thesis" by (simp add: handleFishChoice_def)
next
  case False
  assume "susp_ok w"
  then show ?thesis
    by (rule susp_ok_append_anim
          [where k = "FishAfterAnim (phase (store w)) (currentEnergy (store w))"])
       (simp_all add: suspended_handleFishChoice ids_handleFishChoice False)
qed

lemma susp_ok_handleLLChoice: "susp_ok w \<Longrightarrow> susp_ok (handleLLChoice now w)"
proof (cases "choice_rejected (store w)")
  case True
  then show "susp_ok w \<Longrightarrow> ?thesis" by (simp add: handleLLChoice_def)
next
  case False
  assume "susp_ok w"
  then show ?thesis
    by (rule susp_ok_append_delay
          [where d = "timerId w + 2"
             and k = "LLAfterDelay (phase (store w)) (currentDelayMs (store w)) (currentEnergy (store w))"])
       (simp_all add: suspended_handleLLChoice ids_handleLLChoice False)
qed

lemma timerId_starts:
  "timerId w \<le> timerId (startExposure now w)" "timerId w \<le> timerId (startCondition c now w)"
  by (simp_all add: startExposure_def startCondition_def Let_def startDrain_def
      startConditionTimer_def createTimer_def)

lemma susp_ok_task: "susp_ok w \<Longrightarrow> susp_ok (task ev w)"
proof (cases ev)
  case (StartClick g now)
  assume ok: "susp_ok w"
  show ?thesis
  proof (cases "screen w = IntroS")
    case True
    have "susp_ok (startExposure now (assignGroup g w))"
      using ok by (rule susp_ok_mono) (simp_all add: startExposure_def Let_def startDrain_def
          startConditionTimer_def createTimer_def)
    then show ?thesis using True StartClick by (simp add: task_def)
  next
    case False
    then show ?thesis using ok StartClick by (simp add: task_def)
  qed
next
  case FishClick
  then show "susp_ok w \<Longrightarrow> ?thesis"
    by (simp add: task_def susp_ok_handleFishChoice)
next
  case (LLClick now)
  then show "susp_ok w \<Longrightarrow> ?thesis"
    by (simp add: task_def susp_ok_handleLLChoice)
next
  case ReadyClick
  assume ok: "susp_ok w"
  have "susp_ok (fst (run_on_complete ExposureExpired w))"
    using ok by (rule susp_ok_mono) simp_all
  then show ?thesis using ok ReadyClick by (simp add: task_def del: run_on_complete.simps)
next
  case (ContinueClick now)
  assume ok: "susp_ok w"
  have "susp_ok (startCondition c now w)" for c
    using ok by (rule susp_ok_mono) (simp_all add: timerId_starts)
  then show ?thesis using ok ContinueClick by (simp add: task_def split: option.splits)
next
  case (TimerFire i now now2)
  assume ok: "susp_ok w"
  have "susp_ok (tick i now now2 (upd_timer i timeout_fired w))"
    using ok by (rule susp_ok_mono) simp_all
  then show ?thesis using ok TimerFire by (simp add: task_def split: option.splits)
next
  case (DelayFire i)
  assume ok: "susp_ok w"
  have "susp_ok (delay_fire i w)"
    using ok by (rule susp_ok_mono) simp_all
  then show ?thesis using ok DelayFire by (simp add: task_def split: option.splits)
next
  case (AnimFire a)
  assume ok: "susp_ok w"
  have "susp_ok (anim_fire a w)"
    using ok by (rule susp_ok_mono) simp_all
  then show ?thesis using AnimFire by (simp add: task_def)
next
  case (Hidden now)
  assume ok: "susp_ok w"
  have "susp_ok (pauseAllTimers now (setState (\<lambda>s. s\<lparr>tabHidden := True\<rparr>) w))"
    using ok by (rule susp_ok_mono) simp_all
  then show ?thesis using Hidden by (simp add: task_def)
next
  case (Visible now)
  assume ok: "susp_ok w"
  have "susp_ok (resumeAllTimers now (setState (\<lambda>s. s\<lparr>tabHidden := False\<rparr>) w))"
    using ok by (rule susp_ok_mono) simp_all
  then show ?thesis using Visible by (simp add: task_def)
qed

lemma suspended_run_cont_anim [simp]:
  "suspended (run_cont (FishAfterAnim ph eb) v w) = suspended w"
  "suspended (run_cont (LLAfterAnim ph dl eb) v w) = suspended w"
  "animIds (run_cont (FishAfterAnim ph eb) v w) = animIds w"
  "animIds (run_cont (LLAfterAnim ph dl eb) v w) = animIds w"
  by (simp_all add: Let_def)

lemma suspended_run_cont_delay:
  "suspended (run_cont (LLAfterDelay ph dl eb) v w) =
     (if \<not> v \<or> isDead (store w) then suspended w
      else suspended w @ [(AwaitAnim (animIds w + 1), LLAfterAnim ph dl eb)])"
  "animIds (run_cont (LLAfterDelay ph dl eb) v w) =
     (if \<not> v \<or> isDead (store w) then animIds w else animIds w + 1)"
  by (simp_all add: Let_def playEatingAnimation_def split: option.splits)

declare run_cont.simps [simp del]

lemma susp_ok_run_cont: "susp_ok w \<Longrightarrow> susp_ok (run_cont k v w)"
proof (cases k)
  case (FishAfterAnim ph eb)
  assume "susp_ok w"
  then show ?thesis
    unfolding FishAfterAnim by (rule susp_ok_mono) simp_all
next
  case (LLAfterAnim ph dl eb)
  assume "susp_ok w"
  then show ?thesis
    unfolding LLAfterAnim by (rule susp_ok_mono) simp_all
next
  case (LLAfterDelay ph dl eb)
  assume ok: "susp_ok w"
  show ?thesis
  proof (cases "\<not> v \<or> isDead (store w)")
    case True
    show ?thesis
      unfolding LLAfterDelay using ok
      by (rule susp_ok_mono) (use True in \<open>simp_all add: suspended_run_cont_delay\<close>)
  next
    case False
    show ?thesis
      unfolding LLAfterDelay using ok
      by (rule susp_ok_append_anim [where k = "LLAfterAnim ph dl eb"])
         (use False in \<open>simp_all add: suspended_run_cont_delay\<close>)
  qed
qed

lemma susp_ok_foldl_run_cont:
  "susp_ok w \<Longrightarrow> susp_ok (foldl (\<lambda>w' p. run_cont (fst p) (snd p) w') w q)"
  by (induction q arbitrary: w) (simp_all add: susp_ok_run_cont)

lemma susp_ok_microtasks_upd [simp]: "susp_ok (w\<lparr>microtasks := q\<rparr>) = susp_ok w"
  by (simp add: susp_ok_def)

lemma susp_ok_run_microtasks: "susp_ok w \<Longrightarrow> susp_ok (run_microtasks w)"
  by (simp add: run_microtasks_def susp_ok_foldl_run_cont)

lemma susp_ok_step: "susp_ok w \<Longrightarrow> susp_ok (step ev w)"
  by (simp add: step_def susp_ok_run_microtasks susp_ok_task)

lemma susp_ok_initial: "susp_ok initial_world"
  by (simp add: susp_ok_def initial_world_def)

lemma reachable_susp_ok: "reachable w \<Longrightarrow> susp_ok w"
  by (induction rule: reachable.induct) (simp_all add: susp_ok_step susp_ok_initial)

lemma reachable_microtasks: "reachable w \<Longrightarrow> microtasks w = []"
  by (induction rule: reachable.induct) (simp_all add: initial_world_def step_def)

lemma acct_core: "core (store w') = core (store w) \<Longrightarrow> trials w' = trials w \<Longrightarrow> acct w' = acct w"
  by (simp add: acct_def core_def)

lemma acct_sequencer [simp]:
  "acct (fst (run_on_complete oc w)) = acct w"
  "acct (fst (condition_callback i ld oc w)) = acct w"
  by (rule acct_core; simp)+

lemma acct_run_cont_delay_queue:
  "list_all (\<lambda>x. is_delay_cont (fst x)) q \<Longrightarrow>
   acct (foldl (\<lambda>w' p. run_cont (fst p) (snd p) w') w q) = acct w"
  by (induction q arbitrary: w) (simp_all add: run_cont_delay)

lemma acct_microtasks_upd [simp]: "acct (w\<lparr>microtasks := q\<rparr>) = acct w"
  by (simp add: acct_def)

lemma acct_run_microtasks_dq:
  "dq_ok (suspended w) (microtasks w) \<Longrightarrow> acct (run_microtasks w) = acct w"
  by (simp add: run_microtasks_def dq_ok_def acct_run_cont_delay_queue)

lemma susp_ok_dq: "susp_ok w \<Longrightarrow> microtasks w = [] \<Longrightarrow> dq_ok (suspended w) (microtasks w)"
proof -
  assume ok: "susp_ok w" and q: "microtasks w = []"
  have "await_ok na nt p \<Longrightarrow>
        (case fst p of AwaitDelay i \<Rightarrow> is_delay_cont (snd p) | AwaitAnim a \<Rightarrow> True)" for na nt p
    by (cases p; cases "fst p") simp_all
  then have "list_all (\<lambda>p. case fst p of AwaitDelay i \<Rightarrow> is_delay_cont (snd p) | AwaitAnim a \<Rightarrow> True)
               (suspended w)"
    using ok unfolding susp_ok_def list_all_iff by blast
  then show ?thesis
    using q by (simp add: dq_ok_def)
qed

text \<open>Events that neither grant nor reset.\<close>

lemma acct_handleFishChoice [simp]: "acct (handleFishChoice w) = acct w"
  by (simp add: acct_def store_handleFishChoice handleFishChoice_def Let_def case_prod_beta)

lemma acct_handleLLChoice [simp]: "acct (handleLLChoice now w) = acct w"
  by (simp add: acct_def store_handleLLChoice handleLLChoice_def Let_def case_prod_beta)

lemma microtasks_handlers [simp]:
  "microtasks (handleFishChoice w) = microtasks w"
  "microtasks (handleLLChoice now w) = microtasks w"
  by (simp_all add: handleFishChoice_def handleLLChoice_def Let_def case_prod_beta)

lemma step_quiet:
  assumes "microtasks w = []"
  shows "acct (step FishClick w) = acct w" "acct (step (LLClick now) w) = acct w"
    "acct (step (Hidden now) w) = acct w" "acct (step (Visible now) w) = acct w"
proof -
  show "acct (step FishClick w) = acct w" "acct (step (LLClick now) w) = acct w"
    using assms by (simp_all add: step_def task_def)
  show "acct (step (Hidden now) w) = acct w" "acct (step (Visible now) w) = acct w"
    using assms by (simp_all add: step_def task_def acct_def)
qed

lemma step_settles_delays:
  assumes "susp_ok w" "microtasks w = []"
  shows "acct (step ReadyClick w) = acct w" "acct (step (DelayFire i) w) = acct w"
proof -
  have dq: "dq_ok (suspended w) (microtasks w)"
    using assms by (rule susp_ok_dq)
  have "dq_ok (suspended (task ReadyClick w)) (microtasks (task ReadyClick w))"
    using dq by (simp add: task_def del: run_on_complete.simps)
  then show "acct (step ReadyClick w) = acct w"
    by (simp add: step_def acct_run_microtasks_dq) (simp add: task_def del: run_on_complete.simps)
  have "dq_ok (suspended (task (DelayFire i) w)) (microtasks (task (DelayFire i) w))"
    using dq by (simp add: task_def split: option.splits)
  then show "acct (step (DelayFire i) w) = acct w"
    by (simp add: step_def acct_run_microtasks_dq) (simp add: task_def split: option.splits)
qed

lemma acct_resetForNewPhase:
  "acct (resetForNewPhase w) =
     (STARTING_ENERGY, totalEnergyGained (store w), INITIAL_DELAY_MS, trials w)"
  by (simp add: acct_def store_resetForNewPhase)

lemma acct_starts:
  "acct (startExposure now (assignGroup g w)) =
     (STARTING_ENERGY, totalEnergyGained (store w), INITIAL_DELAY_MS, trials w)"
  "acct (startCondition c now w) =
     (STARTING_ENERGY, totalEnergyGained (store w), INITIAL_DELAY_MS, trials w)"
  by (simp_all add: acct_def store_startExposure store_startCondition assignGroup_def)

lemma step_resets:
  assumes "susp_ok w" "microtasks w = []"
  shows "acct (step (StartClick g now) w) = acct w
       \<or> acct (step (StartClick g now) w)
           = (STARTING_ENERGY, totalEnergyGained (store w), INITIAL_DELAY_MS, trials w)"
    and "acct (step (ContinueClick now) w) = acct w
       \<or> acct (step (ContinueClick now) w)
           = (STARTING_ENERGY, totalEnergyGained (store w), INITIAL_DELAY_MS, trials w)"
proof -
  have dq: "dq_ok (suspended w) (microtasks w)"
    using assms by (rule susp_ok_dq)
  have "dq_ok (suspended (task (StartClick g now) w)) (microtasks (task (StartClick g now) w))"
    using dq by (simp add: task_def)
  then have "acct (step (StartClick g now) w) = acct (task (StartClick g now) w)"
    by (simp add: step_def acct_run_microtasks_dq)
  then show "acct (step (StartClick g now) w) = acct w
       \<or> acct (step (StartClick g now) w)
           = (STARTING_ENERGY, totalEnergyGained (store w), INITIAL_DELAY_MS, trials w)"
    by (simp add: task_def acct_starts)
  have "dq_ok (suspended (task (ContinueClick now) w)) (microtasks (task (ContinueClick now) w))"
    using dq by (simp add: task_def split: option.splits)
  then have "acct (step (ContinueClick now) w) = acct (task (ContinueClick now) w)"
    by (simp add: step_def acct_run_microtasks_dq)
  then show "acct (step (ContinueClick now) w) = acct w
       \<or> acct (step (ContinueClick now) w)
           = (STARTING_ENERGY, totalEnergyGained (store w), INITIAL_DELAY_MS, trials w)"
    by (simp add: task_def acct_starts split: option.splits)
qed

lemma trials_run_cont_Fish:
  "\<not> isDead (store w) \<Longrightarrow>
   \<exists>tr. pointsEarned tr = SMALLER_SOONER_REWARD
       \<and> trials (run_cont (FishAfterAnim ph eb) v w) = trials w @ [tr]"
  by (simp add: run_cont.simps Let_def recordTrial_def)

lemma trials_run_cont_LLAfterAnim:
  "\<not> isDead (store w) \<Longrightarrow>
   \<exists>tr. pointsEarned tr = (if ph = Exposure then EXPOSURE_REWARD else rewardAmount (store w))
       \<and> trials (run_cont (LLAfterAnim ph dl eb) v w) = trials w @ [tr]"
  by (simp add: run_cont.simps Let_def recordTrial_def)

lemma acct_run_cont_cases:
  "acct (run_cont k v w) = acct w
   \<or> (\<exists>r d tr. (r = SMALLER_SOONER_REWARD \<and> d = Increase
                \<or> r = EXPOSURE_REWARD \<and> d = Decrease
                \<or> r = rewardAmount (store w) \<and> d = Decrease)
              \<and> pointsEarned tr = r \<and> acct (run_cont k v w) = granted w r d tr)"
proof (cases "isDead (store w) \<or> is_delay_cont k")
  case True
  then show ?thesis
    using run_cont_dead(2) [of w k v] run_cont_delay(1) [of k v w] by auto
next
  case False
  then have alive: "\<not> isDead (store w)" by simp
  show ?thesis
  proof (cases k)
    case (FishAfterAnim ph eb)
    from trials_run_cont_Fish [OF alive, of ph eb v] obtain tr where
      tr: "pointsEarned tr = SMALLER_SOONER_REWARD"
        "trials (run_cont (FishAfterAnim ph eb) v w) = trials w @ [tr]"
      by blast
    have "acct (run_cont k v w) = granted w SMALLER_SOONER_REWARD Increase tr"
      using alive tr(2) unfolding FishAfterAnim
      by (simp add: acct_def granted_def store_run_cont_Fish adjustDelay_def Let_def)
    then show ?thesis using tr(1) by blast
  next
    case (LLAfterDelay ph dl eb)
    then show ?thesis using False by simp
  next
    case (LLAfterAnim ph dl eb)
    let ?r = "if ph = Exposure then EXPOSURE_REWARD else rewardAmount (store w)"
    from trials_run_cont_LLAfterAnim [OF alive, of ph dl eb v] obtain tr where
      tr: "pointsEarned tr = ?r"
        "trials (run_cont (LLAfterAnim ph dl eb) v w) = trials w @ [tr]"
      by blast
    have "acct (run_cont k v w) = granted w ?r Decrease tr"
      using alive tr(2) unfolding LLAfterAnim
      by (simp add: acct_def granted_def store_run_cont_LLAfterAnim adjustDelay_def Let_def)
    moreover have "?r = EXPOSURE_REWARD \<or> ?r = rewardAmount (store w)"
      by simp
    ultimately show ?thesis using tr(1) by metis
  qed
qed

lemma distinct_filter_fst:
  "distinct (map fst xs) \<Longrightarrow>
   filter (\<lambda>p. fst p = x) xs = [] \<or> (\<exists>k. filter (\<lambda>p. fst p = x) xs = [(x, k)])"
proof (induction xs)
  case Nil
  then show ?case by simp
next
  case (Cons p xs)
  show ?case
  proof (cases "fst p = x")
    case True
    then have "x \<notin> fst ` set xs"
      using Cons.prems by simp
    then have "filter (\<lambda>p. fst p = x) xs = []"
      by (simp add: filter_empty_conv image_iff) blast
    then show ?thesis using True by (cases p) simp
  next
    case False
    then show ?thesis using Cons by simp
  qed
qed

lemma anim_fire_queue:
  assumes "microtasks w = []"
  shows "microtasks (anim_fire a w) = []
       \<or> microtasks (anim_fire a w)
           = map (\<lambda>p. (snd p, True)) (filter (\<lambda>p. fst p = AwaitAnim a) (suspended w))"
  using assms by (simp add: anim_fire_def Let_def settle_def split: option.splits)

lemma run_microtasks_single:
  "microtasks w = [(k, v)] \<Longrightarrow> run_microtasks w = run_cont k v (w\<lparr>microtasks := []\<rparr>)"
  by (simp add: run_microtasks_def)

lemma granted_frame:
  "store w' = store w \<Longrightarrow> trials w' = trials w \<Longrightarrow> granted w' r d tr = granted w r d tr"
  by (simp add: granted_def)

lemma step_anim:
  assumes "susp_ok w" "microtasks w = []"
  shows "acct (step (AnimFire a) w) = acct w
   \<or> (\<exists>r d tr. (r = SMALLER_SOONER_REWARD \<and> d = Increase
                \<or> r = EXPOSURE_REWARD \<and> d = Decrease
                \<or> r = rewardAmount (store w) \<and> d = Decrease)
              \<and> pointsEarned tr = r \<and> acct (step (AnimFire a) w) = granted w r d tr)"
proof -
  let ?w1 = "anim_fire a w"
  have st: "step (AnimFire a) w = run_microtasks ?w1"
    by (simp add: step_def task_def)
  have dist: "distinct (map fst (suspended w))"
    using assms(1) by (simp add: susp_ok_def)
  consider "microtasks ?w1 = []" | k where "microtasks ?w1 = [(k, True)]"
    using anim_fire_queue [OF assms(2), of a] distinct_filter_fst [OF dist, of "AwaitAnim a"]
    by auto
  then show ?thesis
  proof cases
    case 1
    then show ?thesis by (simp add: st)
  next
    case 2
    let ?w2 = "?w1\<lparr>microtasks := []\<rparr>"
    have eq: "store ?w2 = store w" "trials ?w2 = trials w"
      by simp_all
    have a: "acct ?w2 = acct w"
      using eq by (simp add: acct_def)
    show ?thesis
      using acct_run_cont_cases [of k True ?w2]
      by (simp add: st run_microtasks_single [OF 2] a granted_frame [OF eq])
  qed
qed

text \<open>The tick.\<close>

lemma callback_effect:
  assumes "dq_ok (suspended w) (microtasks w)"
  shows "(acct (fst (run_callback i cb w)) = acct w
          \<or> 0 < currentEnergy (store w)
            \<and> acct (fst (run_callback i cb w))
                = (currentEnergy (store w) - 1, totalEnergyGained (store w),
                   currentDelayMs (store w), trials w))
       \<and> (dq_ok (suspended (fst (run_callback i cb w))) (microtasks (fst (run_callback i cb w)))
          \<or> isDead (store (fst (run_callback i cb w))))"
proof (cases cb)
  case DrainCb
  show ?thesis
  proof (cases "currentEnergy (store w) \<le> 0")
    case True
    then show ?thesis using assms DrainCb
      by (simp add: run_callback_def drain_callback_dead)
  next
    case False
    show ?thesis
    proof (cases "currentEnergy (store w) = 1")
      case True
      then show ?thesis using DrainCb
        by (simp add: run_callback_def drain_callback_kill store_triggerGameOver) (simp add: acct_def)
    next
      case ne: False
      have "drain_callback w = setState (\<lambda>s. s\<lparr>currentEnergy := currentEnergy (store w) - 1\<rparr>) w"
        using False ne by (simp add: drain_callback_def Let_def)
      then show ?thesis using assms DrainCb False
        by (simp add: run_callback_def acct_def)
    qed
  qed
next
  case (ConditionCb ld oc)
  then show ?thesis using assms
    by (simp add: run_callback_def)
next
  case (DelayVisualCb r)
  then show ?thesis using assms
    by (simp add: run_callback_def)
qed

lemma acct_run_microtasks_either:
  "dq_ok (suspended w) (microtasks w) \<or> isDead (store w) \<Longrightarrow> acct (run_microtasks w) = acct w"
  using acct_run_microtasks_dq [of w] run_microtasks_dead(2) [of w] by blast

lemma step_timer:
  assumes "susp_ok w" "microtasks w = []"
  shows "acct (step (TimerFire i now now2) w) = acct w
       \<or> 0 < currentEnergy (store w)
         \<and> acct (step (TimerFire i now now2) w)
             = (currentEnergy (store w) - 1, totalEnergyGained (store w),
                currentDelayMs (store w), trials w)"
proof (cases "timers w i")
  case None
  then show ?thesis using assms(2) by (simp add: step_def task_def)
next
  case (Some t)
  show ?thesis
  proof (cases "timeoutHandle t = None \<or> paused t")
    case True
    then show ?thesis using assms(2) Some
      by (auto simp add: step_def task_def tick_def timers_upd_timer timeout_fired_def acct_def)
  next
    case False
    then obtain h where h: "timeoutHandle t = Some h" and np: "\<not> paused t"
      by auto
    let ?w0 = "upd_timer i timeout_fired w"
    let ?r = "run_callback i (callback t) ?w0"
    let ?T = "task (TimerFire i now now2) w"
    have dq0: "dq_ok (suspended ?w0) (microtasks ?w0)"
      using susp_ok_dq [OF assms] by simp
    have T: "?T = (if snd ?r then fst ?r
                   else upd_timer i (tick_rearm now now2 (now - expected t)) (fst ?r))"
      using task_TimerFire [OF Some h np, of now now2] by (simp add: Let_def)
    then have proj: "acct ?T = acct (fst ?r)" "store ?T = store (fst ?r)"
      "suspended ?T = suspended (fst ?r)" "microtasks ?T = microtasks (fst ?r)"
      by (simp_all add: acct_def)
    from callback_effect [OF dq0, of i "callback t"]
    have eff: "acct (fst ?r) = acct w
          \<or> 0 < currentEnergy (store w)
            \<and> acct (fst ?r) = (currentEnergy (store w) - 1, totalEnergyGained (store w),
                   currentDelayMs (store w), trials w)"
      and q: "dq_ok (suspended (fst ?r)) (microtasks (fst ?r)) \<or> isDead (store (fst ?r))"
      by (simp_all add: acct_def)
    have "acct (run_microtasks ?T) = acct ?T"
      by (rule acct_run_microtasks_either) (use q proj in simp)
    then show ?thesis
      using eff by (simp add: step_def proj)
  qed
qed


section \<open>Energy and total gained over a session\<close>

lemmas eval_defs = model_defs config_defs Let_def run_cont.simps condition_callback_def
  update_days_left_def pauseAllTimers_def resumeAllTimers_def

lemma reachable_run: "reachable w \<Longrightarrow> reachable (run evs w)"
  unfolding run_def by (induction evs arbitrary: w) (simp_all add: reachable_step)

lemma reachable_ready_world: "reachable ready_world"
  unfolding ready_world_def by (rule reachable_run) (rule reachable_init)

lemma reachable_between_world: "reachable between_world"
  unfolding between_world_def by (rule reachable_step) (rule reachable_ready_world)

lemma reachable_stuck_world: "reachable stuck_world"
  unfolding stuck_world_def by (rule reachable_run) (rule reachable_ready_world)

lemma ready_world_store:
  "store ready_world = initialState\<lparr>group := Some GroupA, rewardAmount := 5, phase := Exposure,
      currentEnergy := 83, totalEnergyGained := 33, trialNumber := 6,
      exposureFishCount := 3, exposureLLCount := 3\<rparr>"
  by (simp add: ready_world_def eval_defs)

lemma between_world_store:
  "store between_world = initialState\<lparr>group := Some GroupA, rewardAmount := 5, phase := Transition,
      conditionIndex := 0, currentEnergy := 83, totalEnergyGained := 33, trialNumber := 6,
      exposureFishCount := 3, exposureLLCount := 3\<rparr>"
  by (simp add: between_world_def ready_world_def eval_defs)

lemma continue_store:
  "store (step (ContinueClick 40000) between_world) =
     initialState\<lparr>group := Some GroupA, rewardAmount := 5, phase := Condition,
      conditionIndex := 0, conditionId := Some GreatestPositive, totalEnergyGained := 33,
      exposureFishCount := 3, exposureLLCount := 3\<rparr>"
  by (simp add: between_world_def ready_world_def eval_defs)

lemma stuck_world_store:
  "store stuck_world = initialState\<lparr>group := Some GroupA, rewardAmount := 5, phase := Transition,
      conditionIndex := 0, currentEnergy := 83, totalEnergyGained := 33, trialNumber := 7,
      choicesDisabled := True, exposureFishCount := 3, exposureLLCount := 3\<rparr>"
  by (simp add: stuck_world_def ready_world_def eval_defs)

text \<open>
  C3, as stated, fails. After a complete exposure phase the energy is 83; the continue
  button starts the first condition, whose \<open>resetForNewPhase\<close> sets the energy to 50. That
  is neither a decay of one nor any reward clamped at the maximum.
\<close>

theorem reset_sets_energy_counterexample:
  "reachable between_world
   \<and> currentEnergy (store between_world) = 83
   \<and> currentEnergy (store (step (ContinueClick 40000) between_world)) = 50
   \<and> (50::int) \<noteq> 83 - 1
   \<and> 50 \<noteq> min MAX_ENERGY (83 + SMALLER_SOONER_REWARD)
   \<and> 50 \<noteq> min MAX_ENERGY (83 + EXPOSURE_REWARD)
   \<and> 50 \<noteq> min MAX_ENERGY (83 + rewardAmount (store between_world))"
  by (simp add: reachable_between_world between_world_store continue_store initialState_def
      config_defs)

text \<open>
  C3, amended. In every reachable state the energy lies between 0 and \<open>MAX_ENERGY\<close>. One
  event changes it in one of three ways only: a timer fire takes exactly one point from a
  positive energy (a decay tick); an animation end adds exactly the reward of the resumed
  choice, clamped at the maximum; and the start and continue buttons, through
  \<open>resetForNewPhase\<close>, set it to \<open>STARTING_ENERGY\<close>. Every other event leaves it as it is.
\<close>

theorem energy_bounds_and_mutations:
  assumes "reachable w"
  shows "0 \<le> currentEnergy (store w) \<and> currentEnergy (store w) \<le> MAX_ENERGY
       \<and> (case ev of
             TimerFire i now now2 \<Rightarrow>
               currentEnergy (store (step ev w)) = currentEnergy (store w)
               \<or> 0 < currentEnergy (store w)
                 \<and> currentEnergy (store (step ev w)) = currentEnergy (store w) - 1
           | AnimFire a \<Rightarrow>
               currentEnergy (store (step ev w)) = currentEnergy (store w)
               \<or> currentEnergy (store (step ev w))
                   = min MAX_ENERGY (currentEnergy (store w) + SMALLER_SOONER_REWARD)
               \<or> currentEnergy (store (step ev w))
                   = min MAX_ENERGY (currentEnergy (store w) + EXPOSURE_REWARD)
               \<or> currentEnergy (store (step ev w))
                   = min MAX_ENERGY (currentEnergy (store w) + rewardAmount (store w))
           | StartClick g now \<Rightarrow>
               currentEnergy (store (step ev w)) = currentEnergy (store w)
               \<or> currentEnergy (store (step ev w)) = STARTING_ENERGY
           | ContinueClick now \<Rightarrow>
               currentEnergy (store (step ev w)) = currentEnergy (store w)
               \<or> currentEnergy (store (step ev w)) = STARTING_ENERGY
           | _ \<Rightarrow> currentEnergy (store (step ev w)) = currentEnergy (store w))
       \<and> currentEnergy (store (resetForNewPhase w)) = STARTING_ENERGY"
proof -
  have ok: "store_ok (store w)" and s: "susp_ok w" and q: "microtasks w = []"
    using assms by (simp_all add: reachable_store_ok reachable_susp_ok reachable_microtasks)
  have E: "currentEnergy (store w') = fst (acct w')" for w'
    by (simp add: acct_def)
  have "case ev of
             TimerFire i now now2 \<Rightarrow>
               currentEnergy (store (step ev w)) = currentEnergy (store w)
               \<or> 0 < currentEnergy (store w)
                 \<and> currentEnergy (store (step ev w)) = currentEnergy (store w) - 1
           | AnimFire a \<Rightarrow>
               currentEnergy (store (step ev w)) = currentEnergy (store w)
               \<or> currentEnergy (store (step ev w))
                   = min MAX_ENERGY (currentEnergy (store w) + SMALLER_SOONER_REWARD)
               \<or> currentEnergy (store (step ev w))
                   = min MAX_ENERGY (currentEnergy (store w) + EXPOSURE_REWARD)
               \<or> currentEnergy (store (step ev w))
                   = min MAX_ENERGY (currentEnergy (store w) + rewardAmount (store w))
           | StartClick g now \<Rightarrow>
               currentEnergy (store (step ev w)) = currentEnergy (store w)
               \<or> currentEnergy (store (step ev w)) = STARTING_ENERGY
           | ContinueClick now \<Rightarrow>
               currentEnergy (store (step ev w)) = currentEnergy (store w)
               \<or> currentEnergy (store (step ev w)) = STARTING_ENERGY
           | _ \<Rightarrow> currentEnergy (store (step ev w)) = currentEnergy (store w)"
  proof (cases ev)
    case (StartClick g now)
    then show ?thesis using step_resets(1) [OF s q, of g now] by (auto simp add: E)
  next
    case FishClick
    then show ?thesis using step_quiet(1) [OF q] by (simp add: E)
  next
    case (LLClick now)
    then show ?thesis using step_quiet(2) [OF q, of now] by (simp add: E)
  next
    case ReadyClick
    then show ?thesis using step_settles_delays(1) [OF s q] by (simp add: E)
  next
    case (ContinueClick now)
    then show ?thesis using step_resets(2) [OF s q, of now] by (auto simp add: E)
  next
    case (TimerFire i now now2)
    then show ?thesis using step_timer [OF s q, of i now now2] by (auto simp add: E)
  next
    case (DelayFire i)
    then show ?thesis using step_settles_delays(2) [OF s q, of i] by (simp add: E)
  next
    case (AnimFire a)
    then show ?thesis using step_anim [OF s q, of a] by (auto simp add: E granted_def)
  next
    case (Hidden now)
    then show ?thesis using step_quiet(3) [OF q, of now] by (simp add: E)
  next
    case (Visible now)
    then show ?thesis using step_quiet(4) [OF q, of now] by (simp add: E)
  qed
  then show ?thesis
    using ok by (simp add: store_ok_def store_resetForNewPhase)
qed

theorem energy_bounds_and_mutations_witness:
  "reachable ready_world
   \<and> currentEnergy (store ready_world) = 83
   \<and> currentEnergy (store (step FishClick ready_world)) = 83
   \<and> currentEnergy (store (resetForNewPhase ready_world)) = 50"
  using energy_bounds_and_mutations [OF reachable_ready_world, of FishClick]
  by (simp add: reachable_ready_world ready_world_store initialState_def STARTING_ENERGY_def)

text \<open>
  C10. In every reachable state, one event never lowers \<open>totalEnergyGained\<close>: it leaves it
  (and the trial list) unchanged, or it records one trial and adds that trial's reward, which
  is the immediate reward, the exposure reward or the group's reward amount.
  \<open>resetForNewPhase\<close> resets energy, staircase delay, trial counter, elapsed time and the four
  flags, and leaves \<open>totalEnergyGained\<close> as it is.
\<close>

theorem total_gained_never_decreases:
  assumes "reachable w"
  shows "totalEnergyGained (store w) \<le> totalEnergyGained (store (step ev w))
       \<and> (totalEnergyGained (store (step ev w)) = totalEnergyGained (store w)
            \<and> trials (step ev w) = trials w
          \<or> (\<exists>tr. trials (step ev w) = trials w @ [tr]
                 \<and> totalEnergyGained (store (step ev w))
                     = totalEnergyGained (store w) + pointsEarned tr
                 \<and> (pointsEarned tr = SMALLER_SOONER_REWARD \<or> pointsEarned tr = EXPOSURE_REWARD
                    \<or> pointsEarned tr = rewardAmount (store w))))
       \<and> totalEnergyGained (store (resetForNewPhase w)) = totalEnergyGained (store w)
       \<and> currentEnergy (store (resetForNewPhase w)) = STARTING_ENERGY
       \<and> currentDelayMs (store (resetForNewPhase w)) = INITIAL_DELAY_MS
       \<and> trialNumber (store (resetForNewPhase w)) = 0
       \<and> conditionElapsedMs (store (resetForNewPhase w)) = 0
       \<and> \<not> isAnimating (store (resetForNewPhase w))
       \<and> \<not> isWaitingDelay (store (resetForNewPhase w))
       \<and> \<not> isDead (store (resetForNewPhase w))
       \<and> \<not> choicesDisabled (store (resetForNewPhase w))"
proof -
  have ok: "store_ok (store w)" and s: "susp_ok w" and q: "microtasks w = []"
    using assms by (simp_all add: reachable_store_ok reachable_susp_ok reachable_microtasks)
  have r: "0 \<le> rewardAmount (store w)"
    using ok by (simp add: store_ok_def)
  have same: "acct (step ev w) = acct w \<Longrightarrow>
      totalEnergyGained (store (step ev w)) = totalEnergyGained (store w)
      \<and> trials (step ev w) = trials w"
    by (simp add: acct_def)
  have moved: "acct (step ev w) = (e, totalEnergyGained (store w), d, trials w) \<Longrightarrow>
      totalEnergyGained (store (step ev w)) = totalEnergyGained (store w)
      \<and> trials (step ev w) = trials w" for e d
    by (simp add: acct_def)
  have cases: "totalEnergyGained (store (step ev w)) = totalEnergyGained (store w)
            \<and> trials (step ev w) = trials w
          \<or> (\<exists>tr. trials (step ev w) = trials w @ [tr]
                 \<and> totalEnergyGained (store (step ev w))
                     = totalEnergyGained (store w) + pointsEarned tr
                 \<and> (pointsEarned tr = SMALLER_SOONER_REWARD \<or> pointsEarned tr = EXPOSURE_REWARD
                    \<or> pointsEarned tr = rewardAmount (store w)))"
  proof (cases ev)
    case (StartClick g now)
    then show ?thesis using step_resets(1) [OF s q, of g now] same moved by blast
  next
    case FishClick
    then show ?thesis using step_quiet(1) [OF q] same by simp
  next
    case (LLClick now)
    then show ?thesis using step_quiet(2) [OF q, of now] same by simp
  next
    case ReadyClick
    then show ?thesis using step_settles_delays(1) [OF s q] same by simp
  next
    case (ContinueClick now)
    then show ?thesis using step_resets(2) [OF s q, of now] same moved by blast
  next
    case (TimerFire i now now2)
    then show ?thesis using step_timer [OF s q, of i now now2] same moved by blast
  next
    case (DelayFire i)
    then show ?thesis using step_settles_delays(2) [OF s q, of i] same by simp
  next
    case (AnimFire a)
    from step_anim [OF s q, of a]
    consider "acct (step (AnimFire a) w) = acct w"
      | r d tr where "r = SMALLER_SOONER_REWARD \<or> r = EXPOSURE_REWARD \<or> r = rewardAmount (store w)"
          "pointsEarned tr = r" "acct (step (AnimFire a) w) = granted w r d tr"
      by blast
    then show ?thesis
    proof cases
      case 1
      then show ?thesis using same AnimFire by simp
    next
      case 2
      from 2(3) have "trials (step ev w) = trials w @ [tr]"
        and "totalEnergyGained (store (step ev w)) = totalEnergyGained (store w) + r"
        unfolding AnimFire by (simp_all add: acct_def granted_def)
      then show ?thesis using 2(1,2) by (intro disjI2 exI [of _ tr]) simp
    qed
  next
    case (Hidden now)
    then show ?thesis using step_quiet(3) [OF q, of now] same by simp
  next
    case (Visible now)
    then show ?thesis using step_quiet(4) [OF q, of now] same by simp
  qed
  have mono: "totalEnergyGained (store w) \<le> totalEnergyGained (store (step ev w))"
    using cases r by (auto simp add: config_defs)
  show ?thesis
    using cases mono by (simp add: store_resetForNewPhase)
qed

theorem total_gained_never_decreases_witness:
  "reachable ready_world
   \<and> totalEnergyGained (store ready_world) = 33
   \<and> 33 \<le> totalEnergyGained (store (step FishClick ready_world))
   \<and> totalEnergyGained (store (resetForNewPhase ready_world)) = 33"
  using total_gained_never_decreases [OF reachable_ready_world, of FishClick]
  by (simp add: reachable_ready_world ready_world_store initialState_def)


section \<open>The floor of the staircase\<close>

lemma reachable_delay_floor: "reachable w \<Longrightarrow> MIN_DELAY_MS \<le> currentDelayMs (store w)"
  using reachable_store_ok [of w] by (simp add: store_ok_def)

text \<open>
  C4. Whatever sequence of staircase updates is applied to a store whose delay is the
  configured initial value, the delay is at least \<open>MIN_DELAY_MS\<close> afterwards; the sequence
  is arbitrary, so the bound holds after every single update of it. In the running program
  the bound holds in every reachable state, before and after every event.
\<close>

theorem staircase_never_below_minimum:
  "MIN_DELAY_MS \<le>
     currentDelayMs (foldl (\<lambda>s d. adjustDelay d s) (s\<lparr>currentDelayMs := INITIAL_DELAY_MS\<rparr>) ds)
   \<and> (reachable w \<longrightarrow>
        MIN_DELAY_MS \<le> currentDelayMs (store w)
        \<and> MIN_DELAY_MS \<le> currentDelayMs (store (step ev w)))"
proof (intro conjI impI)
  show "MIN_DELAY_MS \<le>
     currentDelayMs (foldl (\<lambda>s d. adjustDelay d s) (s\<lparr>currentDelayMs := INITIAL_DELAY_MS\<rparr>) ds)"
    by (rule foldl_adjustDelay_floor) (simp add: MIN_DELAY_MS_def INITIAL_DELAY_MS_def)
next
  assume r: "reachable w"
  then show "MIN_DELAY_MS \<le> currentDelayMs (store w)"
    by (rule reachable_delay_floor)
  from r have "reachable (step ev w)"
    by (rule reachable_step)
  then show "MIN_DELAY_MS \<le> currentDelayMs (store (step ev w))"
    by (rule reachable_delay_floor)
qed

theorem staircase_never_below_minimum_witness:
  "reachable ready_world
   \<and> currentDelayMs (store ready_world) = 6000
   \<and> MIN_DELAY_MS \<le> currentDelayMs (store (step (LLClick 36000) ready_world))"
  using staircase_never_below_minimum [of initialState "[]" ready_world "LLClick 36000"]
  by (simp add: reachable_ready_world ready_world_store initialState_def)


section \<open>The status flags within a segment\<close>

lemma stale_world_store:
  "store stale_world = initialState\<lparr>group := Some GroupA, rewardAmount := 5, phase := Condition,
      conditionIndex := 0, conditionId := Some GreatestPositive, currentEnergy := 51,
      totalEnergyGained := 34, currentDelayMs := 8000, trialNumber := 1,
      isWaitingDelay := True, exposureFishCount := 4, exposureLLCount := 3\<rparr>"
  by (simp add: stale_world_def ready_world_def eval_defs)

lemma started_world_store:
  "store started_world = initialState\<lparr>group := Some GroupA, rewardAmount := 5, phase := Exposure\<rparr>"
  by (simp add: started_world_def eval_defs)

lemma started_world_idle: "suspended started_world = [] \<and> microtasks started_world = []"
  by (simp add: started_world_def eval_defs)

lemma proc_ok_one_flag: "proc_ok s p \<Longrightarrow> isAnimating s \<noteq> isWaitingDelay s"
  by (cases "(s, p)" rule: proc_ok.cases) auto

lemma proc_ok_cong:
  "isAnimating s' = isAnimating s \<Longrightarrow> isWaitingDelay s' = isWaitingDelay s \<Longrightarrow>
   phase s' = phase s \<Longrightarrow> proc_ok s' p = proc_ok s p"
  by (cases "(s, p)" rule: proc_ok.cases) auto

lemma seg_inv_flags: "seg_inv w \<Longrightarrow> engine_flags_ok (store w)"
  using proc_ok_one_flag
  by (auto simp add: seg_inv_def idle_ok_def busy_ok_def engine_flags_ok_def)

lemma segment_start_inv: "segment_start w \<Longrightarrow> seg_inv w"
  by (simp add: segment_start_def seg_inv_def idle_ok_def)

lemma seg_inv_quiet:
  assumes "seg_inv w" and "microtasks w' = []" and "suspended w' = suspended w"
    and "isAnimating (store w') = isAnimating (store w)"
    and "isWaitingDelay (store w') = isWaitingDelay (store w)"
    and "isDead (store w') = isDead (store w)"
    and "choicesDisabled (store w') = choicesDisabled (store w)"
    and "phase (store w') = phase (store w)"
    and "\<And>p. suspended w = [p] \<Longrightarrow> in_flight w (fst p) \<Longrightarrow> in_flight w' (fst p)"
  shows "seg_inv w'"
proof -
  from assms(1) consider "idle_ok w" | p where "busy_ok w p"
    by (auto simp add: seg_inv_def)
  then show ?thesis
  proof cases
    case 1
    then have "idle_ok w'"
      using assms(3-7) by (simp add: idle_ok_def)
    then show ?thesis using assms(2) by (simp add: seg_inv_def)
  next
    case 2
    then have "busy_ok w' p"
      using assms(3-9) proc_ok_cong [of "store w'" "store w" p]
      by (simp add: busy_ok_def)
    then show ?thesis using assms(2) unfolding seg_inv_def by blast
  qed
qed

lemma in_flight_eq:
  assumes "animCleanup w' (prefix_of (phase (store w'))) = animCleanup w (prefix_of (phase (store w)))"
    and "activeDelay w' = activeDelay w"
    and "\<And>d. activeDelay w = Some d \<Longrightarrow> map_option promise (delays w' d) = map_option promise (delays w d)"
  shows "in_flight w' a = in_flight w a"
proof (cases a)
  case (AwaitAnim n)
  then show ?thesis using assms(1) by (simp add: in_flight_def)
next
  case (AwaitDelay d)
  show ?thesis
  proof (cases "activeDelay w = Some d")
    case True
    from assms(3) [OF True] show ?thesis
      using AwaitDelay True assms(2)
      by (cases "delays w d"; cases "delays w' d"; simp add: in_flight_def)
  next
    case False
    then show ?thesis using AwaitDelay assms(2) by (simp add: in_flight_def)
  qed
qed

lemma promise_pause [simp]: "promise (delay_pause now d) = promise d"
  by (simp add: delay_pause_def)

lemma promise_resume [simp]: "promise (delay_resume now d) = promise d"
  by (simp add: delay_resume_def)

lemma seg_inv_Hidden: "seg_inv w \<Longrightarrow> seg_inv (step (Hidden now) w)"
proof -
  assume inv: "seg_inv w"
  then have q: "microtasks w = []" by (simp add: seg_inv_def)
  let ?w' = "pauseAllTimers now (setState (\<lambda>s. s\<lparr>tabHidden := True\<rparr>) w)"
  have st: "step (Hidden now) w = ?w'"
    using q by (simp add: step_def task_def)
  have fl: "in_flight ?w' a = in_flight w a" for a
    by (rule in_flight_eq)
       (simp_all add: pauseAllTimers_def delays_foldl_pause option.map_comp o_def)
  show ?thesis
    unfolding st using inv
    by (rule seg_inv_quiet) (simp_all add: q fl)
qed

lemma seg_inv_Visible: "seg_inv w \<Longrightarrow> seg_inv (step (Visible now) w)"
proof -
  assume inv: "seg_inv w"
  then have q: "microtasks w = []" by (simp add: seg_inv_def)
  let ?w' = "resumeAllTimers now (setState (\<lambda>s. s\<lparr>tabHidden := False\<rparr>) w)"
  have st: "step (Visible now) w = ?w'"
    using q by (simp add: step_def task_def)
  have fl: "in_flight ?w' a = in_flight w a" for a
    by (rule in_flight_eq)
       (simp_all add: resumeAllTimers_def delays_foldl_resume option.map_comp o_def)
  show ?thesis
    unfolding st using inv
    by (rule seg_inv_quiet) (simp_all add: q fl)
qed

lemma seg_inv_cases:
  assumes "seg_inv w"
  obtains "microtasks w = []" "idle_ok w" | p where "microtasks w = []" "busy_ok w p"
  using assms unfolding seg_inv_def by blast

lemma busy_rejects: "busy_ok w p \<Longrightarrow> choice_rejected (store w)"
  by (simp add: busy_ok_def choice_rejected_def)

lemma handleFishChoice_rejected: "choice_rejected (store w) \<Longrightarrow> handleFishChoice w = w"
  by (simp add: handleFishChoice_def)

lemma handleLLChoice_rejected: "choice_rejected (store w) \<Longrightarrow> handleLLChoice now w = w"
  by (simp add: handleLLChoice_def)

lemma in_flight_handleFishChoice:
  "\<not> choice_rejected (store w) \<Longrightarrow>
   in_flight (handleFishChoice w) (AwaitAnim (animIds w + 1))"
  by (simp add: in_flight_def handleFishChoice_def Let_def playEatingAnimation_def)

lemma in_flight_handleLLChoice:
  "\<not> choice_rejected (store w) \<Longrightarrow>
   in_flight (handleLLChoice now w) (AwaitDelay (timerId w + 2))"
  by (simp add: in_flight_def handleLLChoice_def Let_def createTimer_def createDelay_def
      new_delay_def)

lemma seg_inv_handleFishChoice:
  assumes "seg_inv w"
  shows "seg_inv (handleFishChoice w)"
proof (cases "choice_rejected (store w)")
  case True
  then show ?thesis using assms by (simp add: handleFishChoice_rejected)
next
  case False
  from assms have q: "microtasks w = []" and idle: "idle_ok w"
    using False busy_rejects by (auto elim: seg_inv_cases)
  let ?p = "(AwaitAnim (animIds w + 1), FishAfterAnim (phase (store w)) (currentEnergy (store w)))"
  have "busy_ok (handleFishChoice w) ?p"
    using False idle in_flight_handleFishChoice [OF False]
    by (simp add: busy_ok_def idle_ok_def suspended_handleFishChoice store_handleFishChoice
        choice_rejected_def)
  then show ?thesis
    using q unfolding seg_inv_def by (simp only: microtasks_handlers) blast
qed

lemma seg_inv_handleLLChoice:
  assumes "seg_inv w"
  shows "seg_inv (handleLLChoice now w)"
proof (cases "choice_rejected (store w)")
  case True
  then show ?thesis using assms by (simp add: handleLLChoice_rejected)
next
  case False
  from assms have q: "microtasks w = []" and idle: "idle_ok w"
    using False busy_rejects by (auto elim: seg_inv_cases)
  let ?p = "(AwaitDelay (timerId w + 2),
             LLAfterDelay (phase (store w)) (currentDelayMs (store w)) (currentEnergy (store w)))"
  have "busy_ok (handleLLChoice now w) ?p"
    using False idle in_flight_handleLLChoice [OF False, of now]
    by (simp add: busy_ok_def idle_ok_def suspended_handleLLChoice store_handleLLChoice
        choice_rejected_def)
  then show ?thesis
    using q unfolding seg_inv_def by (simp only: microtasks_handlers) blast
qed

lemma seg_inv_FishClick: "seg_inv w \<Longrightarrow> seg_inv (step FishClick w)"
proof -
  assume inv: "seg_inv w"
  then have q: "microtasks w = []" by (simp add: seg_inv_def)
  have "step FishClick w = w \<or> step FishClick w = handleFishChoice w"
    using q by (simp add: step_def task_def)
  then show ?thesis
    using inv seg_inv_handleFishChoice [OF inv] by auto
qed

lemma seg_inv_LLClick: "seg_inv w \<Longrightarrow> seg_inv (step (LLClick now) w)"
proof -
  assume inv: "seg_inv w"
  then have q: "microtasks w = []" by (simp add: seg_inv_def)
  have "step (LLClick now) w = w \<or> step (LLClick now) w = handleLLChoice now w"
    using q by (simp add: step_def task_def)
  then show ?thesis
    using inv seg_inv_handleLLChoice [OF inv, of now] by auto
qed

lemma settle_miss: "\<forall>p\<in>set (suspended w). fst p \<noteq> a \<Longrightarrow> settle a v w = w"
  by (simp add: settle_def filter_empty_conv)

lemma settle_hit:
  "suspended w = [(a, k)] \<Longrightarrow>
   settle a v w = w\<lparr>suspended := [], microtasks := microtasks w @ [(k, v)]\<rparr>"
  by (simp add: settle_def)

lemma idle_after_anim:
  assumes "suspended w = []" "\<not> is_delay_cont k" "\<not> isDead (store w)"
    "\<not> isWaitingDelay (store w)" "microtasks w = []"
  shows "seg_inv (run_cont k v w)"
  using assms
  by (cases k)
     (simp_all add: seg_inv_def idle_ok_def store_run_cont_Fish store_run_cont_LLAfterAnim
        adjustDelay_def Let_def)

lemma busy_after_delay:
  assumes "suspended w = []" "\<not> isDead (store w)" "choicesDisabled (store w)"
    "microtasks w = []"
  shows "seg_inv (run_cont (LLAfterDelay (phase (store w)) dl eb) True w)"
proof -
  let ?w' = "run_cont (LLAfterDelay (phase (store w)) dl eb) True w"
  let ?p = "(AwaitAnim (animIds w + 1), LLAfterAnim (phase (store w)) dl eb)"
  have fl: "in_flight ?w' (AwaitAnim (animIds w + 1))"
    using assms(2)
    by (simp add: in_flight_def run_cont.simps Let_def playEatingAnimation_def
        split: option.splits)
  have "busy_ok ?w' ?p"
    using assms fl
    by (simp add: busy_ok_def suspended_run_cont_delay store_run_cont_LLAfterDelay)
  then show ?thesis
    using assms(4) unfolding seg_inv_def by (simp only: run_cont_frame) blast
qed

lemma seg_inv_AnimFire: "seg_inv w \<Longrightarrow> seg_inv (step (AnimFire a) w)"
proof -
  assume inv: "seg_inv w"
  then have q: "microtasks w = []" by (simp add: seg_inv_def)
  have st: "step (AnimFire a) w = run_microtasks (anim_fire a w)"
    by (simp add: step_def task_def)
  show ?thesis
  proof (cases "find (\<lambda>p. fst p = a) (animTimeouts w)")
    case None
    then show ?thesis using inv q by (simp add: st anim_fire_def)
  next
    case (Some e)
    let ?w1 = "w\<lparr>animTimeouts := filter (\<lambda>q. fst q \<noteq> a) (animTimeouts w)\<rparr>"
    let ?w2 = "?w1\<lparr>animCleanup := (animCleanup w)(snd e := None)\<rparr>"
    have inv1: "seg_inv ?w1"
      using inv by (rule seg_inv_quiet) (simp_all add: q in_flight_def split: awaiting.splits)
    show ?thesis
    proof (cases "animCleanup w (snd e) = Some a")
      case False
      then have "anim_fire a w = ?w1"
        using Some by (simp add: anim_fire_def Let_def)
      then show ?thesis using inv1 q by (simp add: st)
    next
      case True
      then have af: "anim_fire a w = settle (AwaitAnim a) True ?w2"
        using Some by (simp add: anim_fire_def Let_def)
      from inv show ?thesis
      proof (cases rule: seg_inv_cases)
        case 1
        then have "anim_fire a w = ?w2"
          unfolding af by (simp add: settle_miss idle_ok_def)
        moreover have "seg_inv ?w2"
          using inv by (rule seg_inv_quiet) (use 1 in \<open>simp_all add: idle_ok_def\<close>)
        ultimately show ?thesis using q by (simp add: st)
      next
        case (2 p)
        show ?thesis
        proof (cases "fst p = AwaitAnim a")
          case hit: True
          obtain k where p: "p = (AwaitAnim a, k)"
            using hit by (cases p) simp
          have sus: "suspended ?w2 = [(AwaitAnim a, k)]"
            using 2 p by (simp add: busy_ok_def)
          have "anim_fire a w = ?w2\<lparr>suspended := [], microtasks := [(k, True)]\<rparr>"
            unfolding af settle_hit [OF sus] using q by simp
          then have "step (AnimFire a) w
              = run_cont k True (?w2\<lparr>suspended := [], microtasks := []\<rparr>)"
            by (simp add: st run_microtasks_single)
          moreover have "seg_inv (run_cont k True (?w2\<lparr>suspended := [], microtasks := []\<rparr>))"
            by (rule idle_after_anim) (use 2 p in \<open>simp_all add: busy_ok_def\<close>)
          ultimately show ?thesis by simp
        next
          case miss: False
          have sus: "suspended w = [p]"
            using 2 by (simp add: busy_ok_def)
          have "anim_fire a w = ?w2"
            unfolding af using miss sus by (simp add: settle_miss)
          moreover have "seg_inv ?w2"
            using inv
          proof (rule seg_inv_quiet)
            fix p' assume "suspended w = [p']" and fl: "in_flight w (fst p')"
            then have p': "p' = p" using sus by simp
            show "in_flight ?w2 (fst p')"
              using fl miss True unfolding p'
              by (cases "fst p") (auto simp add: in_flight_def)
          qed (simp_all add: q)
          ultimately show ?thesis using q by (simp add: st)
        qed
      qed
    qed
  qed
qed

lemma proc_ok_delay:
  assumes "proc_ok s (AwaitDelay d, k)"
  obtains dl eb where "k = LLAfterDelay (phase s) dl eb"
  using assms by (cases k) simp_all

lemma seg_inv_DelayFire: "seg_inv w \<Longrightarrow> seg_inv (step (DelayFire i) w)"
proof -
  assume inv: "seg_inv w"
  then have q: "microtasks w = []" by (simp add: seg_inv_def)
  show ?thesis
  proof (cases "delays w i")
    case None
    then show ?thesis using inv q by (simp add: step_def task_def)
  next
    case (Some d)
    show ?thesis
    proof (cases "dTimeoutHandle d = None")
      case True
      then show ?thesis using inv q Some by (simp add: step_def task_def)
    next
      case False
      let ?w1 = "w\<lparr>delays := (delays w)(i \<mapsto> delay_expire d),
                    activeTimers := removeAll i (activeTimers w)\<rparr>"
      have st: "step (DelayFire i) w = run_microtasks (delay_fire i w)"
        using Some False by (auto simp add: step_def task_def)
      have df: "delay_fire i w = (if promise d = None then settle (AwaitDelay i) True ?w1 else ?w1)"
        using Some by (simp add: delay_fire_def Let_def)
      from inv show ?thesis
      proof (cases rule: seg_inv_cases)
        case 1
        then have "delay_fire i w = ?w1"
          unfolding df by (simp add: settle_miss idle_ok_def)
        moreover have "seg_inv ?w1"
          using inv by (rule seg_inv_quiet) (use 1 in \<open>simp_all add: idle_ok_def\<close>)
        ultimately show ?thesis using q by (simp add: st)
      next
        case (2 p)
        have sus: "suspended w = [p]"
          using 2 by (simp add: busy_ok_def)
        show ?thesis
        proof (cases "fst p = AwaitDelay i")
          case hit: True
          obtain k where p: "p = (AwaitDelay i, k)"
            using hit by (cases p) simp
          obtain dl eb where k: "k = LLAfterDelay (phase (store w)) dl eb"
            using 2 p by (auto simp add: busy_ok_def elim: proc_ok_delay)
          have pend: "promise d = None"
            using 2 p Some by (simp add: busy_ok_def in_flight_def)
          have sus1: "suspended ?w1 = [(AwaitDelay i, k)]"
            using sus p by simp
          have "delay_fire i w = ?w1\<lparr>suspended := [], microtasks := [(k, True)]\<rparr>"
            unfolding df settle_hit [OF sus1] using q pend by simp
          then have "step (DelayFire i) w
              = run_cont k True (?w1\<lparr>suspended := [], microtasks := []\<rparr>)"
            by (simp add: st run_microtasks_single)
          moreover have "seg_inv (run_cont (LLAfterDelay
              (phase (store (?w1\<lparr>suspended := [], microtasks := []\<rparr>))) dl eb) True
              (?w1\<lparr>suspended := [], microtasks := []\<rparr>))"
            by (rule busy_after_delay) (use 2 in \<open>simp_all add: busy_ok_def\<close>)
          ultimately show ?thesis by (simp add: k)
        next
          case miss: False
          have "delay_fire i w = ?w1"
            unfolding df using miss sus by (simp add: settle_miss)
          moreover have "seg_inv ?w1"
            using inv
          proof (rule seg_inv_quiet)
            fix p' assume "suspended w = [p']" and fl: "in_flight w (fst p')"
            then have p': "p' = p" using sus by simp
            show "in_flight ?w1 (fst p')"
              using fl miss unfolding p'
              by (cases "fst p") (auto simp add: in_flight_def)
          qed (simp_all add: q)
          ultimately show ?thesis using q by (simp add: st)
        qed
      qed
    qed
  qed
qed

text \<open>Game over with nothing in flight, and with one procedure in flight.\<close>

lemma triggerGameOver_idle:
  assumes "suspended w = []" "microtasks w = []"
  shows "suspended (triggerGameOver w) = [] \<and> microtasks (triggerGameOver w) = []"
  using assms
  by (simp add: triggerGameOver_def Let_def stopDrain_def interruptAnimation_def cancel_def
      settle_def split: option.splits)

lemma triggerGameOver_busy:
  assumes "suspended w = [(a, k)]" "microtasks w = []" "in_flight w a"
  shows "suspended (triggerGameOver w) = []
       \<and> (\<exists>v. microtasks (triggerGameOver w) = [(k, v)])"
proof (cases a)
  case (AwaitAnim n)
  then have "animCleanup w (prefix_of (phase (store w))) = Some n"
    using assms(3) by (simp add: in_flight_def)
  then show ?thesis
    using assms(1,2) AwaitAnim
    by (auto simp add: triggerGameOver_def Let_def stopDrain_def interruptAnimation_def cancel_def
        settle_def split: option.splits)
next
  case (AwaitDelay d)
  then obtain x where "activeDelay w = Some d" "delays w d = Some x" "promise x = None"
    using assms(3) by (auto simp add: in_flight_def split: option.splits)
  then show ?thesis
    using assms(1,2) AwaitDelay
    by (auto simp add: triggerGameOver_def Let_def stopDrain_def interruptAnimation_def cancel_def
        settle_def split: option.splits)
qed

lemma seg_inv_game_over:
  assumes "seg_inv w"
  shows "seg_inv (run_microtasks (upd_timer i f (triggerGameOver w)))"
proof -
  let ?g = "upd_timer i f (triggerGameOver w)"
  have dead: "isDead (store ?g)" and cd: "choicesDisabled (store ?g)"
    by (simp_all add: store_triggerGameOver)
  from assms show ?thesis
  proof (cases rule: seg_inv_cases)
    case 1
    then have "suspended ?g = []" "microtasks ?g = []"
      using triggerGameOver_idle [of w] by (simp_all add: idle_ok_def)
    then show ?thesis
      using 1 dead cd by (simp add: seg_inv_def idle_ok_def store_triggerGameOver)
  next
    case (2 p)
    obtain a k where p: "p = (a, k)" by (cases p)
    from 2 p have sus: "suspended w = [(a, k)]" and fl: "in_flight w a"
      and ok: "proc_ok (store w) (a, k)"
      by (simp_all add: busy_ok_def)
    from triggerGameOver_busy [OF sus 2(1) fl]
    obtain v where s': "suspended ?g = []" and q': "microtasks ?g = [(k, v)]"
      by auto
    let ?h = "?g\<lparr>microtasks := []\<rparr>"
    have rm: "run_microtasks ?g = run_cont k v ?h"
      using q' by (rule run_microtasks_single)
    have dead': "isDead (store ?h)"
      using dead by simp
    have w': "isWaitingDelay (store ?h) = isWaitingDelay (store w)"
      by (simp add: store_triggerGameOver)
    have nw: "\<not> (isWaitingDelay (store w) \<and> \<not> is_delay_cont k)"
      using ok by (cases a; cases k) simp_all
    have "idle_ok (run_cont k v ?h)"
      using run_cont_dead [OF dead', of k v] s' cd nw w'
      by (simp add: idle_ok_def)
    then show ?thesis
      by (simp add: rm seg_inv_def)
  qed
qed

lemma seg_inv_frame:
  assumes "seg_inv w" and "microtasks w' = microtasks w" and "suspended w' = suspended w"
    and "isAnimating (store w') = isAnimating (store w)"
    and "isWaitingDelay (store w') = isWaitingDelay (store w)"
    and "isDead (store w') = isDead (store w)"
    and "choicesDisabled (store w') = choicesDisabled (store w)"
    and "phase (store w') = phase (store w)"
    and "animCleanup w' = animCleanup w" and "activeDelay w' = activeDelay w"
    and "delays w' = delays w"
  shows "seg_inv w'"
proof -
  have fl: "in_flight w' a = in_flight w a" for a
    by (rule in_flight_eq) (simp_all add: assms)
  from assms(1) show ?thesis
    by (rule seg_inv_quiet) (use assms fl in \<open>simp_all add: seg_inv_def\<close>)
qed

lemma seg_inv_drain_callback:
  assumes "seg_inv w"
  shows "seg_inv (run_microtasks (upd_timer i f (drain_callback w)))"
proof -
  from assms have q: "microtasks w = []" by (simp add: seg_inv_def)
  consider "currentEnergy (store w) \<le> 0" | "currentEnergy (store w) = 1"
    | "1 < currentEnergy (store w)"
    by linarith
  then show ?thesis
  proof cases
    case 1
    have "seg_inv (upd_timer i f w)"
      by (rule seg_inv_frame [OF assms]) simp_all
    then show ?thesis using 1 q by (simp add: drain_callback_dead)
  next
    case 2
    have "seg_inv (setState (\<lambda>s. s\<lparr>currentEnergy := 0\<rparr>) w)"
      by (rule seg_inv_frame [OF assms]) simp_all
    then show ?thesis
      using 2 by (simp add: drain_callback_kill seg_inv_game_over)
  next
    case 3
    then have dc: "drain_callback w
        = setState (\<lambda>s. s\<lparr>currentEnergy := currentEnergy (store w) - 1\<rparr>) w"
      by (simp add: drain_callback_def Let_def)
    have "seg_inv (upd_timer i f (drain_callback w))"
      unfolding dc by (rule seg_inv_frame [OF assms]) simp_all
    then show ?thesis using q by (simp add: dc)
  qed
qed

lemma condition_callback_running:
  assumes "conditionElapsedMs (store w) + 1000 < CONDITION_DURATION_MS"
  shows "condition_callback i ld oc w =
           (update_days_left i ld oc (CONDITION_DURATION_MS - (conditionElapsedMs (store w) + 1000))
              (setState (\<lambda>s. s\<lparr>conditionElapsedMs := conditionElapsedMs (store w) + 1000\<rparr>) w),
            False)"
  using assms by (simp add: condition_callback_def Let_def)

lemma update_days_left_cases:
  "update_days_left i ld oc r w = w
   \<or> (\<exists>d g. update_days_left i ld oc r w = setState (\<lambda>s. s\<lparr>daysLeft := d\<rparr>) (upd_timer i g w))"
  by (auto simp add: update_days_left_def Let_def)

lemma seg_inv_update_days_left:
  assumes "seg_inv w"
  shows "seg_inv (update_days_left i ld oc r w)"
proof -
  have "seg_inv (setState (\<lambda>s. s\<lparr>daysLeft := d\<rparr>) (upd_timer i g w))" for d g
    by (rule seg_inv_frame [OF assms]) simp_all
  then show ?thesis
    using update_days_left_cases [of i ld oc r w] assms by auto
qed

lemma seg_inv_TimerFire:
  assumes "seg_inv w" "\<not> segment_expires i w"
  shows "seg_inv (step (TimerFire i now now2) w)"
proof -
  from assms have q: "microtasks w = []" by (simp add: seg_inv_def)
  show ?thesis
  proof (cases "timers w i")
    case None
    then show ?thesis using assms q by (simp add: step_def task_def)
  next
    case (Some t)
    let ?w0 = "upd_timer i timeout_fired w"
    have inv0: "seg_inv ?w0"
      by (rule seg_inv_frame [OF assms(1)]) simp_all
    show ?thesis
    proof (cases "timeoutHandle t = None \<or> paused t")
      case True
      then have "step (TimerFire i now now2) w = w \<or> step (TimerFire i now now2) w = ?w0"
        using Some q
        by (auto simp add: step_def task_def tick_def timers_upd_timer timeout_fired_def)
      then show ?thesis using assms(1) inv0 by auto
    next
      case False
      then obtain h where h: "timeoutHandle t = Some h" and np: "\<not> paused t"
        by auto
      let ?f = "tick_rearm now now2 (now - expected t)"
      note T = task_TimerFire [OF Some h np, of now now2]
      show ?thesis
      proof (cases "callback t")
        case DrainCb
        then have "step (TimerFire i now now2) w
            = run_microtasks (upd_timer i ?f (drain_callback ?w0))"
          by (simp add: step_def T run_callback_def Let_def)
        then show ?thesis
          using seg_inv_drain_callback [OF inv0] by simp
      next
        case (ConditionCb ld oc)
        then have run: "conditionElapsedMs (store ?w0) + 1000 < CONDITION_DURATION_MS"
          using assms(2) Some by (simp add: segment_expires_def)
        let ?w1 = "setState (\<lambda>s. s\<lparr>conditionElapsedMs := conditionElapsedMs (store ?w0) + 1000\<rparr>) ?w0"
        let ?w2 = "update_days_left i ld oc
                     (CONDITION_DURATION_MS - (conditionElapsedMs (store ?w0) + 1000)) ?w1"
        have "seg_inv ?w1"
          by (rule seg_inv_frame [OF assms(1)]) simp_all
        then have "seg_inv ?w2"
          by (rule seg_inv_update_days_left)
        then have inv3: "seg_inv (upd_timer i ?f ?w2)"
          by (rule seg_inv_frame) simp_all
        then have q3: "microtasks (upd_timer i ?f ?w2) = []"
          by (simp add: seg_inv_def)
        have "task (TimerFire i now now2) w = upd_timer i ?f ?w2"
          using ConditionCb condition_callback_running [OF run, of i ld oc]
          by (simp add: T run_callback_def Let_def)
        then show ?thesis
          using inv3 q3 by (simp add: step_def)
      next
        case (DelayVisualCb r)
        let ?w2 = "upd_timer i (\<lambda>t. t\<lparr>callback := DelayVisualCb (r - 100)\<rparr>) ?w0"
        have inv3: "seg_inv (upd_timer i ?f ?w2)"
          by (rule seg_inv_frame [OF assms(1)]) simp_all
        then have q3: "microtasks (upd_timer i ?f ?w2) = []"
          by (simp add: seg_inv_def)
        have "task (TimerFire i now now2) w = upd_timer i ?f ?w2"
          using DelayVisualCb by (simp add: T run_callback_def Let_def)
        then show ?thesis
          using inv3 q3 by (simp add: step_def)
      qed
    qed
  qed
qed

lemma seg_inv_step: "seg_inv w \<Longrightarrow> in_segment ev w \<Longrightarrow> seg_inv (step ev w)"
  by (cases ev)
     (simp_all add: seg_inv_FishClick seg_inv_LLClick seg_inv_AnimFire seg_inv_DelayFire
        seg_inv_TimerFire seg_inv_Hidden seg_inv_Visible)

lemma seg_inv_run: "seg_inv w \<Longrightarrow> all_in_segment evs w \<Longrightarrow> seg_inv (run evs w)"
proof (induction evs arbitrary: w)
  case Nil
  then show ?case by (simp add: run_def)
next
  case (Cons ev evs)
  from Cons.prems have "seg_inv (step ev w)" "all_in_segment evs (step ev w)"
    by (simp_all add: seg_inv_step)
  then have "seg_inv (run evs (step ev w))"
    by (rule Cons.IH)
  then show ?case by (simp add: run_def)
qed

lemma reachable_started_world: "reachable started_world"
  unfolding started_world_def by (rule reachable_step) (rule reachable_init)

lemma reachable_stale_world: "reachable stale_world"
  unfolding stale_world_def by (rule reachable_run) (rule reachable_ready_world)

lemma segment_start_started_world: "segment_start started_world"
  by (simp add: segment_start_def started_world_store started_world_idle initialState_def)

lemma started_world_segment:
  "all_in_segment [LLClick 5, TimerFire 2 1000 1001, DelayFire 4] started_world"
  by (simp add: started_world_def eval_defs segment_expires_def)

text \<open>
  C9, as stated, fails in two reachable states. In \<open>stuck_world\<close> the ready button cancelled
  the delay of a waiting choice: the procedure cleared its busy flags and returned, so the
  engine is idle and alive while the choices are still disabled. In \<open>stale_world\<close> a
  procedure of the previous segment resumed in the next one and enabled the choices while a
  delayed choice of the new segment was waiting.
\<close>

theorem choices_disabled_iff_busy_counterexample:
  "reachable stuck_world
   \<and> choicesDisabled (store stuck_world)
   \<and> \<not> isAnimating (store stuck_world) \<and> \<not> isWaitingDelay (store stuck_world)
   \<and> \<not> isDead (store stuck_world)
   \<and> reachable stale_world
   \<and> \<not> choicesDisabled (store stale_world) \<and> isWaitingDelay (store stale_world)"
  by (simp add: reachable_stuck_world stuck_world_store reachable_stale_world stale_world_store
      initialState_def)

text \<open>
  C9, amended. In every reachable state at most one of \<open>isAnimating\<close> and \<open>isWaitingDelay\<close>
  is set. From a state with no choice procedure in flight and the four flags clear, and as
  long as the segment lasts (no start, ready or continue button and no expiring tick of the
  segment countdown), \<open>choicesDisabled\<close> is true exactly when the engine is animating,
  waiting for a delay, or dead.
\<close>

theorem busy_flags_within_segment:
  "(reachable w \<longrightarrow> \<not> (isAnimating (store w) \<and> isWaitingDelay (store w)))
   \<and> (segment_start w \<and> all_in_segment evs w \<longrightarrow> engine_flags_ok (store (run evs w)))"
proof (intro conjI impI)
  assume "reachable w"
  then have "store_ok (store w)" by (rule reachable_store_ok)
  then show "\<not> (isAnimating (store w) \<and> isWaitingDelay (store w))"
    by (simp add: store_ok_def)
next
  assume "segment_start w \<and> all_in_segment evs w"
  then have "seg_inv w" "all_in_segment evs w"
    by (simp_all add: segment_start_inv)
  then have "seg_inv (run evs w)" by (rule seg_inv_run)
  then show "engine_flags_ok (store (run evs w))" by (rule seg_inv_flags)
qed

theorem busy_flags_within_segment_witness:
  "reachable started_world \<and> segment_start started_world
   \<and> all_in_segment [LLClick 5, TimerFire 2 1000 1001, DelayFire 4] started_world
   \<and> \<not> (isAnimating (store started_world) \<and> isWaitingDelay (store started_world))
   \<and> engine_flags_ok (store (run [LLClick 5, TimerFire 2 1000 1001, DelayFire 4] started_world))"
  using busy_flags_within_segment
          [of started_world "[LLClick 5, TimerFire 2 1000 1001, DelayFire 4]"]
  by (simp del: all_in_segment.simps
      add: reachable_started_world segment_start_started_world started_world_segment)


section \<open>Timers that outlive their stop\<close>

text \<open>
  \<open>tick\<close> re-arms its timer after the callback, whatever the callback did. A callback that
  stops its own timer (the drain callback through game over, the countdown callback at
  expiry) therefore leaves a timer that is out of the registry and out of the engine's
  variables, and still fires. The lemmas below run the session in which the player never
  chooses, one timeout after the other.
\<close>

lemma days_shown_0: "days_shown 0 = 5"
  by (simp add: days_shown_def config_defs ceil_div_def)

lemma start_idle_exposure: "step (StartClick GroupA 0) initial_world = idle_exposure 0 0"
  by (simp add: idle_exposure_def eval_defs days_shown_0 numeral_2_eq_2)

lemma drain_tick_alive:
  assumes "a < 49"
  shows "step (TimerFire 1 (3000 * real (Suc a)) (3000 * real (Suc a))) (idle_exposure a c)
       = idle_exposure (Suc a) c"
  using assms
  by (simp add: idle_exposure_def eval_defs numeral_2_eq_2
      fun_upd_twist [of "Suc (Suc 0)" "Suc 0"] algebra_simps)

lemma drain_tick_kill:
  "step (TimerFire 1 (3000 * real (Suc 49)) (3000 * real (Suc 49))) (idle_exposure 49 c)
     = idle_exposure (Suc 49) c"
  by (simp add: idle_exposure_def eval_defs numeral_2_eq_2
      fun_upd_twist [of "Suc (Suc 0)" "Suc 0"])

lemma drain_tick_dead:
  assumes "50 \<le> a"
  shows "step (TimerFire 1 (3000 * real (Suc a)) (3000 * real (Suc a))) (idle_exposure a c)
       = idle_exposure (Suc a) c"
  using assms
  by (simp add: idle_exposure_def eval_defs numeral_2_eq_2
      fun_upd_twist [of "Suc (Suc 0)" "Suc 0"] algebra_simps)

lemma drain_tick:
  "step (TimerFire 1 (3000 * real (Suc a)) (3000 * real (Suc a))) (idle_exposure a c)
     = idle_exposure (Suc a) c"
proof -
  consider "a < 49" | "a = 49" | "50 \<le> a" by linarith
  then show ?thesis
    by cases (simp_all only: drain_tick_alive drain_tick_kill drain_tick_dead)
qed

lemma countdown_tick:
  assumes "c < 299"
  shows "step (TimerFire 2 (1000 * real (Suc c)) (1000 * real (Suc c))) (idle_exposure a c)
       = idle_exposure a (Suc c)"
  using assms
  by (simp add: idle_exposure_def eval_defs numeral_2_eq_2 days_shown_def algebra_simps)

lemma run_append: "run (xs @ ys) w = run ys (run xs w)"
  by (simp add: run_def)

lemma run_Cons: "run (ev # evs) w = run evs (step ev w)"
  by (simp add: run_def)

lemma run_Nil: "run [] w = w"
  by (simp add: run_def)

lemma three_seconds_run:
  assumes "m < 99"
  shows "run (three_seconds m) (idle_exposure m (3 * m)) = idle_exposure (Suc m) (3 * Suc m)"
proof -
  have t1: "1000 * real (3 * m + 1) = 1000 * real (Suc (3 * m))"
    and t2: "1000 * real (3 * m + 2) = 1000 * real (Suc (Suc (3 * m)))"
    and t3: "1000 * real (3 * m + 3) = 1000 * real (Suc (Suc (Suc (3 * m))))"
    by simp_all
  have t4: "1000 * real (Suc (Suc (Suc (3 * m)))) = 3000 * real (Suc m)"
    by simp
  have c: "3 * m < 299" "Suc (3 * m) < 299" "Suc (Suc (3 * m)) < 299"
    using assms by simp_all
  have s1: "step (TimerFire 2 (1000 * real (Suc (3 * m))) (1000 * real (Suc (3 * m))))
              (idle_exposure m (3 * m)) = idle_exposure m (Suc (3 * m))"
    using c(1) by (rule countdown_tick)
  have s2: "step (TimerFire 2 (1000 * real (Suc (Suc (3 * m)))) (1000 * real (Suc (Suc (3 * m)))))
              (idle_exposure m (Suc (3 * m))) = idle_exposure m (Suc (Suc (3 * m)))"
    using c(2) by (rule countdown_tick)
  have s3: "step (TimerFire 1 (1000 * real (Suc (Suc (Suc (3 * m)))))
                    (1000 * real (Suc (Suc (Suc (3 * m))))))
              (idle_exposure m (Suc (Suc (3 * m)))) = idle_exposure (Suc m) (Suc (Suc (3 * m)))"
    unfolding t4 by (rule drain_tick)
  have s4: "step (TimerFire 2 (1000 * real (Suc (Suc (Suc (3 * m)))))
                    (1000 * real (Suc (Suc (Suc (3 * m))))))
              (idle_exposure (Suc m) (Suc (Suc (3 * m))))
              = idle_exposure (Suc m) (Suc (Suc (Suc (3 * m))))"
    using c(3) by (rule countdown_tick)
  have e: "3 * Suc m = Suc (Suc (Suc (3 * m)))"
    by simp
  show ?thesis
    unfolding e by (simp only: three_seconds_def t1 t2 t3 run_Cons run_Nil s1 s2 s3 s4)
qed

lemma three_seconds_runs:
  "n \<le> 99 \<Longrightarrow>
   run (concat (map three_seconds [0..<n])) (idle_exposure 0 0) = idle_exposure n (3 * n)"
proof (induction n)
  case 0
  then show ?case by (simp add: run_Nil)
next
  case (Suc n)
  then have "run (concat (map three_seconds [0..<n])) (idle_exposure 0 0) = idle_exposure n (3 * n)"
    and "n < 99"
    by simp_all
  then show ?case
    by (simp add: run_append three_seconds_run)
qed

lemma last_three_seconds:
  "run (three_seconds 99) (idle_exposure 99 297)
     = step (TimerFire 2 300000 300000) (idle_exposure 100 299)"
proof -
  have s1: "step (TimerFire 2 298000 298000) (idle_exposure 99 297) = idle_exposure 99 298"
    using countdown_tick [of 297 99] by simp
  have s2: "step (TimerFire 2 299000 299000) (idle_exposure 99 298) = idle_exposure 99 299"
    using countdown_tick [of 298 99] by simp
  have s3: "step (TimerFire (Suc 0) 300000 300000) (idle_exposure 99 299) = idle_exposure 100 299"
    using drain_tick [of 99 299] by simp
  show ?thesis
    by (simp add: three_seconds_def run_Cons run_Nil s1 s2 s3)
qed

lemma expired_world_eq:
  "expired_world = step (TimerFire 2 300000 300000) (idle_exposure 100 299)"
proof -
  have "[0..<100] = [0..<99] @ [99]"
    by (simp add: upt_rec)
  then have "expired_world
      = run (three_seconds 99) (run (concat (map three_seconds [0..<99])) (idle_exposure 0 0))"
    by (simp add: expired_world_def idle_exposure_events_def run_Cons run_append
        start_idle_exposure)
  also have "\<dots> = run (three_seconds 99) (idle_exposure 99 297)"
    using three_seconds_runs [of 99] by simp
  finally show ?thesis
    by (simp only: last_three_seconds)
qed

lemma reachable_expired_world: "reachable expired_world"
  unfolding expired_world_def by (rule reachable_run) (rule reachable_init)

lemmas survivor_defs = expired_world_eq idle_exposure_def days_shown_def eval_defs
  numeral_2_eq_2 pending_drain_def pending_countdown_def ceil_div_def pause_entry_def
  upd_timer_def upd_delay_def timer_pause_def three_seconds_def status_def

lemma reachable_restarted_world: "reachable restarted_world"
  unfolding restarted_world_def by (rule reachable_step) (rule reachable_expired_world)

lemma reachable_hidden_world: "reachable hidden_world"
  unfolding hidden_world_def by (rule reachable_step) (rule reachable_restarted_world)

lemma expired_world_eval:
  "status expired_world = (0, True, False, 300000, Suc 0)"
  "drainTimer expired_world = None"
  "activeTimers expired_world = []"
  "pending_drain expired_world (Suc 0)"
  "pending_countdown expired_world 2"
  by (simp_all add: survivor_defs)

lemma restarted_world_eval:
  "status restarted_world = (50, False, False, 0, Suc 0)"
  "drainTimer restarted_world = Some 3"
  "conditionCountdown restarted_world = Some 4"
  "activeTimers restarted_world = [3, 4]"
  "pending_drain restarted_world (Suc 0)"
  "pending_countdown restarted_world 2"
  by (simp_all add: restarted_world_def survivor_defs)

lemma second_segment_eval:
  "status (run second_segment_events restarted_world) = (50, False, False, 4000, Suc 0)"
  "status (step (TimerFire (Suc 0) 303000 303000) (run second_segment_events restarted_world))
     = (49, False, False, 4000, Suc 0)"
  by (simp_all add: second_segment_events_def restarted_world_def survivor_defs)

lemma hidden_world_eval:
  "status hidden_world = (50, False, True, 0, Suc 0)"
  "activeTimers hidden_world = [3, 4]"
  "map_option paused (timers hidden_world 3) = Some True"
  "map_option paused (timers hidden_world 4) = Some True"
  "map_option remainingMs (timers hidden_world 3) = Some 2800"
  "pending_drain hidden_world (Suc 0)"
  "map_option expected (timers hidden_world (Suc 0)) = Some 303000"
  "pending_countdown hidden_world 2"
  by (simp_all add: hidden_world_def restarted_world_def survivor_defs)

lemma hidden_three_seconds_eval:
  "status (run (three_seconds 100) hidden_world) = (49, False, True, 3000, Suc 0)"
  by (simp add: hidden_world_def restarted_world_def survivor_defs)

lemma hidden_until_dead_eval:
  "status (run hidden_events hidden_world) = (0, True, True, 150000, Suc (Suc 0))"
  by (simp add: hidden_events_def hidden_world_def restarted_world_def survivor_defs upt_rec)

text \<open>
  C2 does not hold of the code. The player starts and never chooses. After 150 s the
  drain tick of timer 1 takes the last point and triggers game over, whose \<open>stopDrain\<close>
  clears \<open>drainTimer\<close> and takes timer 1 out of the registry; the tick then re-arms it, so
  it is not torn down: at the end of the exposure phase it still has a timeout pending.
  \<open>resetForNewPhase\<close> cannot reach it. In the first condition the energy is 50 again, and
  the tick of timer 1 at 303 s, a tick that runs after the energy had reached 0, takes it
  to 49. When the tab is hidden, where the registered timers pause, timer 1 alone uses up
  all fifty points and triggers game over a second time.
\<close>

theorem drain_timer_outlives_game_over:
  "reachable expired_world
   \<and> status expired_world = (0, True, False, 300000, 1)
   \<and> drainTimer expired_world = None \<and> activeTimers expired_world = []
   \<and> pending_drain expired_world 1
   \<and> reachable restarted_world
   \<and> status restarted_world = (50, False, False, 0, 1)
   \<and> drainTimer restarted_world = Some 3 \<and> activeTimers restarted_world = [3, 4]
   \<and> pending_drain restarted_world 1
   \<and> status (run second_segment_events restarted_world) = (50, False, False, 4000, 1)
   \<and> status (step (TimerFire 1 303000 303000) (run second_segment_events restarted_world))
       = (49, False, False, 4000, 1)
   \<and> status (run hidden_events hidden_world) = (0, True, True, 150000, 2)"
  by (simp add: reachable_expired_world reachable_restarted_world expired_world_eval
      restarted_world_eval second_segment_eval hidden_until_dead_eval)

text \<open>
  C6 does not hold of the code. \<open>pauseAllTimers\<close> pauses what is in the registry. In the
  first condition of the session above the tab is hidden at 300.7 s: the timers of the
  condition (3 and 4) are paused with their remaining time frozen, while the drain timer
  and the countdown of the exposure phase (1 and 2), live but out of the registry, are not
  paused and keep their schedule. While the tab is hidden, timer 1 fires at 303 s and
  takes a point, timer 2 counts the elapsed time of the segment, and after 150 s of
  hidden tab the energy is used up and the game is over.
\<close>

theorem hidden_tab_leaves_stopped_timers_running:
  "reachable hidden_world
   \<and> status hidden_world = (50, False, True, 0, 1)
   \<and> activeTimers hidden_world = [3, 4]
   \<and> map_option paused (timers hidden_world 3) = Some True
   \<and> map_option paused (timers hidden_world 4) = Some True
   \<and> map_option remainingMs (timers hidden_world 3) = Some 2800
   \<and> pending_drain hidden_world 1
   \<and> map_option expected (timers hidden_world 1) = Some 303000
   \<and> pending_countdown hidden_world 2
   \<and> status (run (three_seconds 100) hidden_world) = (49, False, True, 3000, 1)
   \<and> status (run hidden_events hidden_world) = (0, True, True, 150000, 2)"
  by (simp add: reachable_hidden_world hidden_world_eval hidden_three_seconds_eval
      hidden_until_dead_eval)

end
